theory Spec2Isabelle
  imports Complex_Main
begin

section \<open>Numeric arrays of fixed shape\<close>

text \<open>
  The arrays of \<^verbatim>\<open>cells.py\<close> have fixed shapes: a position is a row of three numbers and a
  lattice is three such rows. Floating-point numbers are modelled as exact reals.
\<close>

type_synonym vec3 = "real \<times> real \<times> real"
type_synonym mat3 = "vec3 \<times> vec3 \<times> vec3"

fun vadd :: "vec3 \<Rightarrow> vec3 \<Rightarrow> vec3" where
  "vadd (a, b, c) (x, y, z) = (a + x, b + y, c + z)"

fun vsub :: "vec3 \<Rightarrow> vec3 \<Rightarrow> vec3" where
  "vsub (a, b, c) (x, y, z) = (a - x, b - y, c - z)"

fun vneg :: "vec3 \<Rightarrow> vec3" where
  "vneg (a, b, c) = (- a, - b, - c)"

fun vscale :: "real \<Rightarrow> vec3 \<Rightarrow> vec3" where
  "vscale k (x, y, z) = (k * x, k * y, k * z)"

fun vdot :: "vec3 \<Rightarrow> vec3 \<Rightarrow> real" where
  "vdot (a, b, c) (x, y, z) = a * x + b * y + c * z"

text \<open>\<^verbatim>\<open>(v ** 2).sum()\<close>\<close>

definition normsq :: "vec3 \<Rightarrow> real" where
  "normsq v = vdot v v"

text \<open>\<^verbatim>\<open>np.dot(v, m)\<close> for a row vector and a matrix of rows.\<close>

fun vec_mat :: "vec3 \<Rightarrow> mat3 \<Rightarrow> vec3" where
  "vec_mat (x, y, z) (r0, r1, r2) = vadd (vadd (vscale x r0) (vscale y r1)) (vscale z r2)"

fun transpose3 :: "mat3 \<Rightarrow> mat3" where
  "transpose3 ((a, b, c), (d, e, f), (g, h, i)) = ((a, d, g), (b, e, h), (c, f, i))"

text \<open>\<^verbatim>\<open>np.dot(a, b)\<close> for two matrices.\<close>

fun mat_mul :: "mat3 \<Rightarrow> mat3 \<Rightarrow> mat3" where
  "mat_mul (r0, r1, r2) m = (vec_mat r0 m, vec_mat r1 m, vec_mat r2 m)"

fun det3 :: "mat3 \<Rightarrow> real" where
  "det3 ((a, b, c), (d, e, f), (g, h, i)) =
     a * e * i - a * f * h + b * f * g - b * d * i + c * d * h - c * e * g"

fun inv3 :: "mat3 \<Rightarrow> mat3" where
  "inv3 ((a, b, c), (d, e, f), (g, h, i)) =
     (let dt = det3 ((a, b, c), (d, e, f), (g, h, i)) in
      (((e * i - f * h) / dt, (c * h - b * i) / dt, (b * f - c * e) / dt),
       ((f * g - d * i) / dt, (a * i - c * g) / dt, (c * d - a * f) / dt),
       ((d * h - e * g) / dt, (b * g - a * h) / dt, (a * e - b * d) / dt)))"

datatype error = AssertionError | LinAlgError | IndexError | ZeroDivisionError

text \<open>\<^verbatim>\<open>np.linalg.inv\<close> raises on a singular matrix.\<close>

definition linalg_inv :: "mat3 \<Rightarrow> error + mat3" where
  "linalg_inv m = (if det3 m = 0 then Inl LinAlgError else Inr (inv3 m))"

text \<open>\<^verbatim>\<open>np.rint\<close> rounds to the nearest integer, halves to the even neighbour.\<close>

definition rint :: "real \<Rightarrow> real" where
  "rint x =
     (let f = \<lfloor>x\<rfloor>; d = x - of_int f in
      if d < 1 / 2 then of_int f
      else if 1 / 2 < d then of_int (f + 1)
      else if even f then of_int f else of_int (f + 1))"

fun vrint :: "vec3 \<Rightarrow> vec3" where
  "vrint (x, y, z) = (rint x, rint y, rint z)"

fun vfloor :: "vec3 \<Rightarrow> vec3" where
  "vfloor (x, y, z) = (of_int \<lfloor>x\<rfloor>, of_int \<lfloor>y\<rfloor>, of_int \<lfloor>z\<rfloor>)"

text \<open>Indexing a sequence raises when the index is out of range.\<close>

definition py_index :: "'a list \<Rightarrow> nat \<Rightarrow> error + 'a" where
  "py_index xs i = (if i < length xs then Inr (xs ! i) else Inl IndexError)"

section \<open>The structure container\<close>

text \<open>
  Modelled from the spec: the class \<^verbatim>\<open>PhonopyAtoms\<close> (imported as \<^verbatim>\<open>Atoms\<close>) is not part of
  the source at hand. Following the data model it is a value object: per-atom species
  numbers, optional masses, optional magnetic moments and fractional positions, one lattice
  of three row vectors and a periodic flag. The constructor called without arguments gives
  the structure with zero atoms.
\<close>

record atoms =
  numbers :: "int list"
  masses :: "real list option"
  magmoms :: "real list option"
  scaled_positions :: "vec3 list"
  cell :: mat3
  pbc :: bool

definition get_number_of_atoms :: "atoms \<Rightarrow> nat" where
  "get_number_of_atoms a = length (scaled_positions a)"

definition empty_atoms :: atoms where
  "empty_atoms = \<lparr>numbers = [], masses = None, magmoms = None, scaled_positions = [],
     cell = ((0, 0, 0), (0, 0, 0), (0, 0, 0)), pbc = False\<rparr>"

definition get_positions :: "atoms \<Rightarrow> vec3 list" where
  "get_positions a = map (\<lambda>p. vec_mat p (cell a)) (scaled_positions a)"

section \<open>trim_cell\<close>

text \<open>The running state of the loop of \<^verbatim>\<open>trim_cell\<close>; \<open>trimed_positions\<close> holds the first
  \<^verbatim>\<open>num_atom\<close> rows of the array of the source.\<close>

record trim_state =
  trimed_positions :: "vec3 list"
  trimed_numbers :: "int list"
  trimed_masses :: "real list option"
  trimed_magmoms :: "real list option"
  extracted_atoms :: "nat list"
  mapping_table :: "nat list"

text \<open>The distance of one kept position to \<open>pos\<close>, as lines 79 to 85 compute it.\<close>

definition trim_distance :: "mat3 \<Rightarrow> vec3 \<Rightarrow> vec3 \<Rightarrow> real" where
  "trim_distance trimed_lattice kept pos =
     (let diff = vsub kept pos; diff' = vsub diff (vrint diff)
      in sqrt (normsq (vec_mat diff' trimed_lattice)))"

definition overlap_indices :: "mat3 \<Rightarrow> real \<Rightarrow> vec3 list \<Rightarrow> vec3 \<Rightarrow> nat list" where
  "overlap_indices trimed_lattice symprec kept pos =
     filter (\<lambda>k. trim_distance trimed_lattice (kept ! k) pos < symprec) [0..<length kept]"

definition append_opt :: "'a list option \<Rightarrow> 'a list option \<Rightarrow> nat \<Rightarrow> error + 'a list option" where
  "append_opt src acc i =
     (case src of
        None \<Rightarrow> Inr acc
      | Some xs \<Rightarrow>
          (case py_index xs i of
             Inl e \<Rightarrow> Inl e
           | Inr x \<Rightarrow> Inr (map_option (\<lambda>ys. ys @ [x]) acc)))"

definition trim_step ::
  "mat3 \<Rightarrow> real \<Rightarrow> atoms \<Rightarrow> nat \<Rightarrow> vec3 \<Rightarrow> trim_state \<Rightarrow> error + trim_state" where
  "trim_step trimed_lattice symprec cl i pos st =
     (let ov = overlap_indices trimed_lattice symprec (trimed_positions st) pos in
      if ov \<noteq> [] then
        (if length ov \<noteq> 1 then Inl AssertionError
         else Inr (st\<lparr>mapping_table := (mapping_table st)[i := extracted_atoms st ! hd ov]\<rparr>))
      else
        (case py_index (numbers cl) i of
           Inl e \<Rightarrow> Inl e
         | Inr n \<Rightarrow>
             (case append_opt (masses cl) (trimed_masses st) i of
                Inl e \<Rightarrow> Inl e
              | Inr ms \<Rightarrow>
                  (case append_opt (magmoms cl) (trimed_magmoms st) i of
                     Inl e \<Rightarrow> Inl e
                   | Inr mg \<Rightarrow>
                       Inr (st\<lparr>trimed_positions := trimed_positions st @ [pos],
                               trimed_numbers := trimed_numbers st @ [n],
                               trimed_masses := ms,
                               trimed_magmoms := mg,
                               extracted_atoms := extracted_atoms st @ [i]\<rparr>)))))"

fun trim_loop ::
  "mat3 \<Rightarrow> real \<Rightarrow> atoms \<Rightarrow> nat \<Rightarrow> vec3 list \<Rightarrow> trim_state \<Rightarrow> error + trim_state" where
  "trim_loop lat symprec cl i [] st = Inr st"
| "trim_loop lat symprec cl i (pos # ps) st =
     (case trim_step lat symprec cl i pos st of
        Inl e \<Rightarrow> Inl e
      | Inr st' \<Rightarrow> trim_loop lat symprec cl (Suc i) ps st')"

definition trim_init :: "atoms \<Rightarrow> trim_state" where
  "trim_init cl =
     \<lparr>trimed_positions = [], trimed_numbers = [],
      trimed_masses = (case masses cl of None \<Rightarrow> None | Some _ \<Rightarrow> Some []),
      trimed_magmoms = (case magmoms cl of None \<Rightarrow> None | Some _ \<Rightarrow> Some []),
      extracted_atoms = [],
      mapping_table = [0..<length (scaled_positions cl)]\<rparr>"

definition positions_in_new_lattice :: "mat3 \<Rightarrow> vec3 list \<Rightarrow> vec3 list" where
  "positions_in_new_lattice inv_axes positions =
     map (\<lambda>p. let q = vec_mat p (transpose3 inv_axes) in vsub q (vfloor q)) positions"

definition trim_cell :: "mat3 \<Rightarrow> atoms \<Rightarrow> real \<Rightarrow> error + (atoms \<times> nat list \<times> nat list)" where
  "trim_cell relative_axes cl symprec =
     (let trimed_lattice = mat_mul (transpose3 relative_axes) (cell cl) in
      case linalg_inv relative_axes of
        Inl e \<Rightarrow> Inl e
      | Inr inv_axes \<Rightarrow>
          (case trim_loop trimed_lattice symprec cl 0
                  (positions_in_new_lattice inv_axes (scaled_positions cl)) (trim_init cl) of
             Inl e \<Rightarrow> Inl e
           | Inr st \<Rightarrow>
               Inr (\<lparr>numbers = trimed_numbers st, masses = trimed_masses st,
                     magmoms = trimed_magmoms st, scaled_positions = trimed_positions st,
                     cell = trimed_lattice, pbc = True\<rparr>,
                    extracted_atoms st, mapping_table st)))"

section \<open>Supercell\<close>

type_synonym ivec3 = "int \<times> int \<times> int"
type_synonym imat3 = "ivec3 \<times> ivec3 \<times> ivec3"

text \<open>The entries of the supercell matrix are machine integers of the platform's \<^verbatim>\<open>int\<close>
  type; they are modelled as mathematical integers, which agrees with the source for every
  matrix whose frame and determinant stay below \<open>2^31\<close>.\<close>

fun determinant :: "imat3 \<Rightarrow> int" where
  "determinant ((m00, m01, m02), (m10, m11, m12), (m20, m21, m22)) =
     m00 * m11 * m22 - m00 * m12 * m21 + m01 * m12 * m20 -
     m01 * m10 * m22 + m02 * m10 * m21 - m02 * m11 * m20"

definition list_max :: "int list \<Rightarrow> int" where
  "list_max xs = fold max (tl xs) (hd xs)"

definition list_min :: "int list \<Rightarrow> int" where
  "list_min xs = fold min (tl xs) (hd xs)"

text \<open>Row \<open>i\<close> of the matrix holds component \<open>i\<close> of every column; the eight corners are the
  sums of subsets of the columns.\<close>

definition corner_components :: "ivec3 \<Rightarrow> int list" where
  "corner_components r = (case r of (a, b, c) \<Rightarrow> [0, a, b, c, b + c, c + a, a + b, a + b + c])"

definition get_surrounding_frame :: "imat3 \<Rightarrow> ivec3" where
  "get_surrounding_frame m =
     (case m of (r0, r1, r2) \<Rightarrow>
        (list_max (corner_components r0) - list_min (corner_components r0),
         list_max (corner_components r1) - list_min (corner_components r1),
         list_max (corner_components r2) - list_min (corner_components r2)))"

text \<open>The offsets \<open>(k, j, i)\<close> in the order of the three nested loops: \<open>i\<close> outermost.\<close>

definition frame_offsets :: "ivec3 \<Rightarrow> (nat \<times> nat \<times> nat) list" where
  "frame_offsets multi =
     (case multi of (m0, m1, m2) \<Rightarrow>
        concat (map (\<lambda>i. concat (map (\<lambda>j. map (\<lambda>k. (k, j, i)) [0..<nat m0]) [0..<nat m1]))
                 [0..<nat m2]))"

definition replica_position :: "ivec3 \<Rightarrow> vec3 \<Rightarrow> nat \<times> nat \<times> nat \<Rightarrow> vec3" where
  "replica_position multi pos off =
     (case (multi, pos, off) of ((m0, m1, m2), (x, y, z), (k, j, i)) \<Rightarrow>
        ((x + real k) / real_of_int m0, (y + real j) / real_of_int m1,
         (z + real i) / real_of_int m2))"

text \<open>One pass of the outer loop over the atom \<open>l\<close>: nothing is read when there is no offset.\<close>

definition replicate_opt :: "'a list option \<Rightarrow> nat \<Rightarrow> nat \<Rightarrow> error + 'a list option" where
  "replicate_opt src l n =
     (case src of
        None \<Rightarrow> Inr None
      | Some xs \<Rightarrow>
          (if n = 0 then Inr (Some [])
           else case py_index xs l of Inl e \<Rightarrow> Inl e | Inr x \<Rightarrow> Inr (Some (replicate n x))))"

definition append_some :: "'a list option \<Rightarrow> 'a list option \<Rightarrow> 'a list option" where
  "append_some a b = (case (a, b) of (Some xs, Some ys) \<Rightarrow> Some (xs @ ys) | _ \<Rightarrow> None)"

record simple_state =
  positions_multi :: "vec3 list"
  numbers_multi :: "int list"
  masses_multi :: "real list option"
  magmoms_multi :: "real list option"
  atom_map :: "nat list"

definition simple_step :: "ivec3 \<Rightarrow> atoms \<Rightarrow> nat \<Rightarrow> vec3 \<Rightarrow> simple_state \<Rightarrow> error + simple_state" where
  "simple_step multi unitcell l pos st =
     (let offs = frame_offsets multi; n = length offs in
      case replicate_opt (Some (numbers unitcell)) l n of
        Inl e \<Rightarrow> Inl e
      | Inr ns \<Rightarrow>
          (case replicate_opt (masses unitcell) l n of
             Inl e \<Rightarrow> Inl e
           | Inr ms \<Rightarrow>
               (case replicate_opt (magmoms unitcell) l n of
                  Inl e \<Rightarrow> Inl e
                | Inr mg \<Rightarrow>
                    Inr \<lparr>positions_multi = positions_multi st @ map (replica_position multi pos) offs,
                         numbers_multi = numbers_multi st @ the ns,
                         masses_multi = (if masses unitcell = None then None
                                         else append_some (masses_multi st) ms),
                         magmoms_multi = (if magmoms unitcell = None then None
                                          else append_some (magmoms_multi st) mg),
                         atom_map = atom_map st @ replicate n l\<rparr>)))"

fun simple_loop :: "ivec3 \<Rightarrow> atoms \<Rightarrow> nat \<Rightarrow> vec3 list \<Rightarrow> simple_state \<Rightarrow> error + simple_state" where
  "simple_loop multi unitcell l [] st = Inr st"
| "simple_loop multi unitcell l (pos # ps) st =
     (case simple_step multi unitcell l pos st of
        Inl e \<Rightarrow> Inl e
      | Inr st' \<Rightarrow> simple_loop multi unitcell (Suc l) ps st')"

definition diag_scale :: "ivec3 \<Rightarrow> mat3 \<Rightarrow> mat3" where
  "diag_scale multi lattice =
     (case (multi, lattice) of ((m0, m1, m2), (r0, r1, r2)) \<Rightarrow>
        (vscale (real_of_int m0) r0, vscale (real_of_int m1) r1, vscale (real_of_int m2) r2))"

definition get_simple_supercell :: "ivec3 \<Rightarrow> atoms \<Rightarrow> error + (atoms \<times> nat list)" where
  "get_simple_supercell multi unitcell =
     (case simple_loop multi unitcell 0 (scaled_positions unitcell)
             \<lparr>positions_multi = [], numbers_multi = [],
              masses_multi = (case masses unitcell of None \<Rightarrow> None | Some _ \<Rightarrow> Some []),
              magmoms_multi = (case magmoms unitcell of None \<Rightarrow> None | Some _ \<Rightarrow> Some []),
              atom_map = []\<rparr> of
        Inl e \<Rightarrow> Inl e
      | Inr st \<Rightarrow>
          Inr (\<lparr>numbers = numbers_multi st, masses = masses_multi st, magmoms = magmoms_multi st,
                scaled_positions = positions_multi st,
                cell = diag_scale multi (cell unitcell), pbc = True\<rparr>,
               atom_map st))"

fun ivec_over :: "ivec3 \<Rightarrow> int \<Rightarrow> vec3" where
  "ivec_over (a, b, c) f = (real_of_int a / real_of_int f, real_of_int b / real_of_int f,
     real_of_int c / real_of_int f)"

text \<open>What the constructor prints.\<close>

datatype printed_item = Text string | Table "nat list"

record supercell =
  sc_atoms :: atoms
  supercell_matrix :: imat3
  s2u_map :: "nat list option"
  u2s_map :: "nat list option"
  u2u_map :: "(nat \<rightharpoonup> nat) option"
  sc_printed :: "printed_item list"

text \<open>\<^verbatim>\<open>dict([(j, i) for i, j in enumerate(xs)])\<close>: a later pair replaces an earlier one with
  the same key.\<close>

definition index_inverse :: "nat list \<Rightarrow> (nat \<rightharpoonup> nat)" where
  "index_inverse xs = fold (\<lambda>i m. m(xs ! i \<mapsto> i)) [0..<length xs] Map.empty"

definition trim_frame :: "imat3 \<Rightarrow> ivec3 \<Rightarrow> mat3" where
  "trim_frame mat frame =
     (case (mat, frame) of ((r0, r1, r2), (f0, f1, f2)) \<Rightarrow>
        (ivec_over r0 f0, ivec_over r1 f1, ivec_over r2 f2))"

text \<open>A zero frame component (a zero row of the matrix) makes the source divide by zero in
  floating point and then fail inside \<^verbatim>\<open>trim_cell\<close>; here the trimming frame is singular in
  that case, so the model fails inside \<open>trim_cell\<close> as well.\<close>

definition create_supercell :: "atoms \<Rightarrow> imat3 \<Rightarrow> real \<Rightarrow> error + supercell" where
  "create_supercell unitcell mat symprec =
     (let frame = get_surrounding_frame mat in
      case get_simple_supercell frame unitcell of
        Inl e \<Rightarrow> Inl e
      | Inr (sur_cell, u2sur_map) \<Rightarrow>
          (case trim_cell (trim_frame mat frame) sur_cell symprec of
             Inl e \<Rightarrow> Inl e
           | Inr (scell, sur2s_map, mtable) \<Rightarrow>
               (let num_satom = get_number_of_atoms scell;
                    num_uatom = get_number_of_atoms unitcell
                in if num_uatom = 0 then Inl ZeroDivisionError
                   else
                     (let multi = num_satom div num_uatom in
                      if int multi \<noteq> determinant mat then
                        Inr \<lparr>sc_atoms = empty_atoms, supercell_matrix = mat,
                             s2u_map = None, u2s_map = None, u2u_map = None,
                             sc_printed = [Text ''Supercell creation failed.'',
                               Text ''Probably some atoms are overwrapped. The mapping table is give below.'',
                               Table mtable]\<rparr>
                      else
                        (let u2s = map (\<lambda>i. i * multi) [0..<num_uatom] in
                         Inr \<lparr>sc_atoms = scell\<lparr>pbc := True\<rparr>, supercell_matrix = mat,
                              s2u_map = Some (map (\<lambda>k. (u2sur_map ! k) * multi) sur2s_map),
                              u2s_map = Some u2s,
                              u2u_map = Some (index_inverse u2s),
                              sc_printed = []\<rparr>)))))"

definition get_supercell :: "atoms \<Rightarrow> imat3 \<Rightarrow> real \<Rightarrow> error + supercell" where
  "get_supercell unitcell mat symprec = create_supercell unitcell mat symprec"

section \<open>Primitive\<close>

fun all_abs_less :: "vec3 \<Rightarrow> real \<Rightarrow> bool" where
  "all_abs_less (x, y, z) s \<longleftrightarrow> \<bar>x\<bar> < s \<and> \<bar>y\<bar> < s \<and> \<bar>z\<bar> < s"

text \<open>The test of lines 322 to 327 for supercell atom \<open>i\<close> against the atom \<open>j\<close>.\<close>

definition s2p_match :: "mat3 \<Rightarrow> vec3 list \<Rightarrow> real \<Rightarrow> nat \<Rightarrow> nat \<Rightarrow> bool" where
  "s2p_match inv_F pos symprec i j =
     (let s_pos = vec_mat (pos ! i) (transpose3 inv_F);
          p_pos = vec_mat (pos ! j) (transpose3 inv_F);
          diff = vsub p_pos s_pos;
          diff' = vsub diff (vrint diff)
      in all_abs_less diff' symprec)"

text \<open>The inner loop appends the first matching \<open>j\<close> and breaks; without a match nothing is
  appended.\<close>

definition s2p_entries :: "mat3 \<Rightarrow> nat list \<Rightarrow> vec3 list \<Rightarrow> real \<Rightarrow> nat \<Rightarrow> nat list" where
  "s2p_entries inv_F p2s pos symprec i =
     (case find (s2p_match inv_F pos symprec i) p2s of None \<Rightarrow> [] | Some j \<Rightarrow> [j])"

definition supercell_to_primitive_map ::
  "mat3 \<Rightarrow> nat list \<Rightarrow> real \<Rightarrow> vec3 list \<Rightarrow> error + nat list" where
  "supercell_to_primitive_map primitive_matrix p2s symprec pos =
     (case linalg_inv primitive_matrix of
        Inl e \<Rightarrow> Inl e
      | Inr inv_F \<Rightarrow>
          Inr (concat (map (s2p_entries inv_F p2s pos symprec) [0..<length pos])))"

record primitive =
  p_atoms :: atoms
  primitive_matrix :: mat3
  p2s_map :: "nat list"
  s2p_map :: "nat list"
  p2p_map :: "nat \<rightharpoonup> nat"

text \<open>The constructor of \<^verbatim>\<open>Primitive\<close> up to the index maps. Its last step, the table of
  smallest vectors, runs routines outside this source file and adds no index map.\<close>

definition get_primitive :: "atoms \<Rightarrow> mat3 \<Rightarrow> real \<Rightarrow> error + primitive" where
  "get_primitive scell pmat symprec =
     (case trim_cell pmat scell symprec of
        Inl e \<Rightarrow> Inl e
      | Inr (trimed_cell, p2s, mtable) \<Rightarrow>
          (case supercell_to_primitive_map pmat p2s symprec (scaled_positions scell) of
             Inl e \<Rightarrow> Inl e
           | Inr s2p \<Rightarrow>
               Inr \<lparr>p_atoms = trimed_cell\<lparr>pbc := True\<rparr>, primitive_matrix = pmat,
                    p2s_map = p2s, s2p_map = s2p, p2p_map = index_inverse p2s\<rparr>))"

section \<open>Delaunay reduction\<close>

definition pairs4 :: "(nat \<times> nat) list" where
  "pairs4 = [(0, 1), (0, 2), (0, 3), (1, 2), (1, 3), (2, 3)]"

text \<open>\<^verbatim>\<open>_reduce_bases\<close> changes its argument in place and returns whether the reduction is
  complete; the model returns the array as well.\<close>

definition reduce_bases :: "vec3 list \<Rightarrow> real \<Rightarrow> bool \<times> vec3 list" where
  "reduce_bases extended_bases tolerance =
     (case find (\<lambda>(i, j). tolerance < vdot (extended_bases ! i) (extended_bases ! j)) pairs4 of
        None \<Rightarrow> (True, extended_bases)
      | Some (i, j) \<Rightarrow>
          (False,
           map (\<lambda>k. if k = i then vneg (extended_bases ! i)
                     else if k = j then extended_bases ! j
                     else vadd (extended_bases ! k) (extended_bases ! i)) [0..<4]))"

text \<open>\<^verbatim>\<open>for i in range(100)\<close> with \<open>n\<close> iterations left and loop variable \<open>i\<close>; the pair returned
  holds the value of \<open>i\<close> after the loop.\<close>

fun delaunay_loop :: "real \<Rightarrow> nat \<Rightarrow> nat \<Rightarrow> vec3 list \<Rightarrow> nat \<times> vec3 list" where
  "delaunay_loop tolerance 0 i eb = (i - 1, eb)"
| "delaunay_loop tolerance (Suc n) i eb =
     (case reduce_bases eb tolerance of
        (True, eb') \<Rightarrow> (i, eb')
      | (False, eb') \<Rightarrow> delaunay_loop tolerance n (Suc i) eb')"

definition triples7 :: "(nat \<times> nat \<times> nat) list" where
  "triples7 =
     concat (map (\<lambda>i. concat (map (\<lambda>j. map (\<lambda>k. (i, j, k)) [Suc j..<7]) [Suc i..<7])) [0..<7])"

definition seven_candidates :: "vec3 list \<Rightarrow> vec3 list" where
  "seven_candidates eb =
     eb @ [vadd (eb ! 0) (eb ! 1), vadd (eb ! 1) (eb ! 2), vadd (eb ! 2) (eb ! 0)]"

definition get_shortest_bases_from_extented_bases ::
  "vec3 list \<Rightarrow> real \<Rightarrow> string list \<times> mat3" where
  "get_shortest_bases_from_extented_bases extended_bases tolerance =
     (let basis = sort_key normsq (seven_candidates extended_bases) in
      case find (\<lambda>(i, j, k). tolerance < \<bar>det3 (basis ! i, basis ! j, basis ! k)\<bar>) triples7 of
        Some (i, j, k) \<Rightarrow> ([], (basis ! i, basis ! j, basis ! k))
      | None \<Rightarrow> ([''Delaunary reduction is failed.''], (basis ! 0, basis ! 1, basis ! 2)))"

definition extend_bases :: "mat3 \<Rightarrow> vec3 list" where
  "extend_bases lattice =
     (case lattice of (a, b, c) \<Rightarrow> [a, b, c, vneg (vadd (vadd a b) c)])"

definition get_Delaunay_reduction :: "mat3 \<Rightarrow> real \<Rightarrow> string list \<times> mat3" where
  "get_Delaunay_reduction lattice tolerance =
     (case delaunay_loop tolerance 100 0 (extend_bases lattice) of
        (i, eb) \<Rightarrow>
          (case get_shortest_bases_from_extented_bases eb tolerance of
             (out, shortest) \<Rightarrow>
               ((if i = 99 then [''Delaunary reduction was failed.''] else []) @ out, shortest)))"

section \<open>Smallest vectors\<close>

definition lattice_points :: "vec3 list" where
  "lattice_points =
     concat (map (\<lambda>i. concat (map (\<lambda>j. map (\<lambda>k. (i, j, k)) [-1, 0, 1]) [-1, 0, 1])) [-1, 0, 1])"

definition cart_length :: "mat3 \<Rightarrow> vec3 \<Rightarrow> real" where
  "cart_length reduced_bases c = sqrt (normsq (vec_mat c reduced_bases))"

definition real_list_min :: "real list \<Rightarrow> real" where
  "real_list_min xs = fold min (tl xs) (hd xs)"

definition get_equivalent_smallest_vectors_simple :: "vec3 \<Rightarrow> mat3 \<Rightarrow> real \<Rightarrow> vec3 list" where
  "get_equivalent_smallest_vectors_simple frac_vector reduced_bases symprec =
     (let candidates = map (vadd frac_vector) lattice_points;
          lengths = map (cart_length reduced_bases) candidates;
          shortest = real_list_min lengths
      in map fst (filter (\<lambda>(c, l). l - shortest < symprec) (zip candidates lengths)))"

text \<open>\<^verbatim>\<open>get_reduced_bases\<close> hands the lattice to one of two routines of the symmetry library,
  which is outside this source; they are parameters here. A method that is not the string
  \<^verbatim>\<open>'niggli'\<close> selects the Delaunay routine.\<close>

definition get_reduced_bases ::
  "(mat3 \<Rightarrow> real \<Rightarrow> mat3) \<Rightarrow> (mat3 \<Rightarrow> real \<Rightarrow> mat3) \<Rightarrow> mat3 \<Rightarrow> bool \<Rightarrow> real \<Rightarrow> mat3" where
  "get_reduced_bases niggli_reduce delaunay_reduce lattice method_is_niggli tolerance =
     (if method_is_niggli then niggli_reduce lattice tolerance
      else delaunay_reduce lattice tolerance)"

text \<open>The caller passes \<open>symprec\<close> in the position of the method, so the method is not
  \<^verbatim>\<open>'niggli'\<close> and the tolerance keeps its default.\<close>

definition reduced_frac_pos :: "vec3 list \<Rightarrow> mat3 \<Rightarrow> nat \<Rightarrow> error + vec3" where
  "reduced_frac_pos cart_positions reduced_bases_inv i =
     (case py_index cart_positions i of
        Inl e \<Rightarrow> Inl e
      | Inr p \<Rightarrow> (let vec = vec_mat p reduced_bases_inv in Inr (vsub vec (vrint vec))))"

definition get_equivalent_smallest_vectors ::
  "(mat3 \<Rightarrow> real \<Rightarrow> mat3) \<Rightarrow> (mat3 \<Rightarrow> real \<Rightarrow> mat3) \<Rightarrow>
   nat \<Rightarrow> nat \<Rightarrow> atoms \<Rightarrow> mat3 \<Rightarrow> real \<Rightarrow> error + vec3 list" where
  "get_equivalent_smallest_vectors niggli_reduce delaunay_reduce
       atom_number_supercell atom_number_primitive scell primitive_lattice symprec =
     (let reduced_bases =
            get_reduced_bases niggli_reduce delaunay_reduce (cell scell) False (1 / 100000)
      in case linalg_inv reduced_bases of
           Inl e \<Rightarrow> Inl e
         | Inr reduced_bases_inv \<Rightarrow>
             (let cart_positions = get_positions scell in
              case reduced_frac_pos cart_positions reduced_bases_inv atom_number_primitive of
                Inl e \<Rightarrow> Inl e
              | Inr p_pos \<Rightarrow>
                  (case reduced_frac_pos cart_positions reduced_bases_inv atom_number_supercell of
                     Inl e \<Rightarrow> Inl e
                   | Inr s_pos \<Rightarrow>
                       (let differences =
                              get_equivalent_smallest_vectors_simple (vsub s_pos p_pos)
                                reduced_bases symprec
                        in case linalg_inv primitive_lattice of
                             Inl e \<Rightarrow> Inl e
                           | Inr pl_inv \<Rightarrow>
                               Inr (map (\<lambda>d. vec_mat d (mat_mul reduced_bases pl_inv))
                                      differences)))))"

section \<open>Auxiliary notions for the statements\<close>

definition min_image :: "vec3 \<Rightarrow> vec3 \<Rightarrow> vec3" where
  "min_image k p = vsub (vsub k p) (vrint (vsub k p))"

definition ident3 :: mat3 where
  "ident3 = ((1, 0, 0), (0, 1, 0), (0, 0, 1))"

definition cellA :: atoms where
  "cellA = \<lparr>numbers = [1, 2, 3], masses = Some [1, 2, 3], magmoms = None,
     scaled_positions = [(0,0,0), (3/10,0,0), (3/20,0,0)], cell = ident3, pbc = True\<rparr>"

definition trim_inv :: "atoms \<Rightarrow> nat \<Rightarrow> nat \<Rightarrow> trim_state \<Rightarrow> bool" where
  "trim_inv cl n i st \<longleftrightarrow>
     length (mapping_table st) = n \<and>
     sorted_wrt (<) (extracted_atoms st) \<and>
     (\<forall>e \<in> set (extracted_atoms st). e < i) \<and>
     (\<forall>k<n. k < i \<longrightarrow> mapping_table st ! k \<in> set (extracted_atoms st) \<and>
        mapping_table st ! k \<le> k \<and>
        (mapping_table st ! k = k \<longleftrightarrow> k \<in> set (extracted_atoms st))) \<and>
     (\<forall>k<n. i \<le> k \<longrightarrow> mapping_table st ! k = k) \<and>
     length (trimed_positions st) = length (extracted_atoms st) \<and>
     trimed_numbers st = map (\<lambda>e. numbers cl ! e) (extracted_atoms st) \<and>
     trimed_masses st = map_option (\<lambda>ms. map (\<lambda>e. ms ! e) (extracted_atoms st)) (masses cl) \<and>
     trimed_magmoms st = map_option (\<lambda>ms. map (\<lambda>e. ms ! e) (extracted_atoms st)) (magmoms cl)"

definition kept_state :: "atoms \<Rightarrow> nat \<Rightarrow> trim_state" where
  "kept_state cl i =
     \<lparr>trimed_positions = take i (scaled_positions cl),
      trimed_numbers = take i (numbers cl),
      trimed_masses = map_option (take i) (masses cl),
      trimed_magmoms = map_option (take i) (magmoms cl),
      extracted_atoms = [0..<i],
      mapping_table = [0..<length (scaled_positions cl)]\<rparr>"

definition wf_atoms :: "atoms \<Rightarrow> bool" where
  "wf_atoms a \<longleftrightarrow>
     length (numbers a) = length (scaled_positions a) \<and>
     (case masses a of None \<Rightarrow> True | Some ms \<Rightarrow> length ms = length (scaled_positions a)) \<and>
     (case magmoms a of None \<Rightarrow> True | Some ms \<Rightarrow> length ms = length (scaled_positions a))"

fun in_unit_cell :: "vec3 \<Rightarrow> bool" where
  "in_unit_cell (x, y, z) \<longleftrightarrow> 0 \<le> x \<and> x < 1 \<and> 0 \<le> y \<and> y < 1 \<and> 0 \<le> z \<and> z < 1"

text \<open>Example inputs.\<close>

definition cellB :: atoms where
  "cellB = \<lparr>numbers = [14, 8], masses = Some [28, 16], magmoms = None,
     scaled_positions = [(0, 0, 0), (1 / 2, 0, 0)], cell = ident3, pbc = True\<rparr>"

definition half_axes :: mat3 where
  "half_axes = ((1 / 2, 0, 0), (0, 1, 0), (0, 0, 1))"

definition cellC :: atoms where
  "cellC = \<lparr>numbers = [6, 6], masses = None, magmoms = None,
     scaled_positions = [(0, 0, 0), (3 / 20, 0, 0)],
     cell = ((1 / 10, 0, 0), (0, 1 / 10, 0), (0, 0, 1 / 10)), pbc = True\<rparr>"

text \<open>The supercell atom \<open>i\<close> has a matching primitive atom among \<open>p2s\<close>.\<close>

definition s2p_matched :: "mat3 \<Rightarrow> nat list \<Rightarrow> vec3 list \<Rightarrow> real \<Rightarrow> nat \<Rightarrow> bool" where
  "s2p_matched inv_F p2s pos symprec i = list_ex (s2p_match inv_F pos symprec i) p2s"

text \<open>The reduction loop completes (the test of \<^verbatim>\<open>_reduce_bases\<close> succeeds) within \<open>n\<close>
  iterations.\<close>

fun delaunay_converged :: "real \<Rightarrow> nat \<Rightarrow> vec3 list \<Rightarrow> bool" where
  "delaunay_converged tolerance 0 eb = False"
| "delaunay_converged tolerance (Suc n) eb =
     (case reduce_bases eb tolerance of
        (True, eb') \<Rightarrow> True
      | (False, eb') \<Rightarrow> delaunay_converged tolerance n eb')"

text \<open>No three of the seven sorted candidates pass the test of independence.\<close>

definition no_independent_triple :: "vec3 list \<Rightarrow> real \<Rightarrow> bool" where
  "no_independent_triple basis tolerance =
     list_all (\<lambda>(i, j, k). \<not> tolerance < \<bar>det3 (basis ! i, basis ! j, basis ! k)\<bar>) triples7"

definition sorted_candidates :: "mat3 \<Rightarrow> real \<Rightarrow> vec3 list" where
  "sorted_candidates lattice tolerance =
     sort_key normsq (seven_candidates (snd (delaunay_loop tolerance 100 0 (extend_bases lattice))))"

definition zero3 :: mat3 where
  "zero3 = ((0, 0, 0), (0, 0, 0), (0, 0, 0))"

definition latSkew :: mat3 where
  "latSkew = ((1, 0, 0), (200, 1, 0), (0, 0, 1))"

definition skew_S :: "real \<Rightarrow> vec3 list" where
  "skew_S x = [(1, 0, 0), (x, 1, 0), (0, 0, 1), (- x - 1, - 1, - 1)]"

definition skew_T :: "real \<Rightarrow> vec3 list" where
  "skew_T x = [(- 1, 0, 0), (x, 1, 0), (1, 0, 1), (- x, - 1, - 1)]"

definition latC3 :: mat3 where
  "latC3 = ((4, 0, 0), (- 3, 4, 0), (0, 0, 4))"

text \<open>The 27 candidates of a fractional vector and those within the tolerance of the
  shortest.\<close>

definition candidates27 :: "vec3 \<Rightarrow> vec3 list" where
  "candidates27 frac_vector = map (vadd frac_vector) lattice_points"

definition within_tolerance :: "mat3 \<Rightarrow> real \<Rightarrow> vec3 list \<Rightarrow> vec3 list" where
  "within_tolerance reduced_bases symprec cands =
     filter (\<lambda>c. cart_length reduced_bases c - Min (cart_length reduced_bases ` set cands) < symprec)
       cands"

definition keep_lattice :: "mat3 \<Rightarrow> real \<Rightarrow> mat3" where
  "keep_lattice lattice tolerance = lattice"

text \<open>What the reduction loop maintains about the four extended vectors: they sum to zero and
  the first three span the volume \<open>D\<close>.\<close>

definition ext_inv :: "real \<Rightarrow> vec3 list \<Rightarrow> bool" where
  "ext_inv D eb \<longleftrightarrow>
     length eb = 4 \<and>
     vadd (vadd (vadd (eb ! 0) (eb ! 1)) (eb ! 2)) (eb ! 3) = (0, 0, 0) \<and>
     \<bar>det3 (eb ! 0, eb ! 1, eb ! 2)\<bar> = D"

text \<open>All six pairwise products of the four extended vectors are at most the tolerance.\<close>

definition pairwise_reduced :: "vec3 list \<Rightarrow> real \<Rightarrow> bool" where
  "pairwise_reduced eb tolerance =
     list_all (\<lambda>(i, j). vdot (eb ! i) (eb ! j) \<le> tolerance) pairs4"

text \<open>The seven candidates in coordinates of the first three extended vectors.\<close>

definition coeffs7 :: "vec3 list" where
  "coeffs7 = [(1, 0, 0), (0, 1, 0), (0, 0, 1), (- 1, - 1, - 1), (1, 1, 0), (0, 1, 1), (1, 0, 1)]"

definition is_sum :: "vec3 \<Rightarrow> bool" where
  "is_sum c \<longleftrightarrow> c = (1, 1, 0) \<or> c = (0, 1, 1) \<or> c = (1, 0, 1)"

fun lex3 :: "nat \<times> nat \<times> nat \<Rightarrow> nat \<times> nat \<times> nat \<Rightarrow> bool" where
  "lex3 (a, b, c) (i, j, k) \<longleftrightarrow> a < i \<or> (a = i \<and> (b < j \<or> (b = j \<and> c < k)))"

fun row0 :: "mat3 \<Rightarrow> vec3" where "row0 (a, b, c) = a"
fun row1 :: "mat3 \<Rightarrow> vec3" where "row1 (a, b, c) = b"
fun row2 :: "mat3 \<Rightarrow> vec3" where "row2 (a, b, c) = c"

section \<open>Integer lattices\<close>

text \<open>The translations of the supercell lattice, in units of the unit cell, are the integer
  combinations of the columns of the supercell matrix.\<close>

fun iadd :: "ivec3 \<Rightarrow> ivec3 \<Rightarrow> ivec3" where
  "iadd (a, b, c) (x, y, z) = (a + x, b + y, c + z)"

fun isub :: "ivec3 \<Rightarrow> ivec3 \<Rightarrow> ivec3" where
  "isub (a, b, c) (x, y, z) = (a - x, b - y, c - z)"

fun iscale :: "int \<Rightarrow> ivec3 \<Rightarrow> ivec3" where
  "iscale k (x, y, z) = (k * x, k * y, k * z)"

fun comb3 :: "ivec3 \<Rightarrow> ivec3 \<Rightarrow> ivec3 \<Rightarrow> ivec3 \<Rightarrow> ivec3" where
  "comb3 u v w (a, b, c) = iadd (iadd (iscale a u) (iscale b v)) (iscale c w)"

definition in_span :: "ivec3 \<Rightarrow> ivec3 \<Rightarrow> ivec3 \<Rightarrow> ivec3 \<Rightarrow> bool" where
  "in_span u v w x \<longleftrightarrow> (\<exists>n. x = comb3 u v w n)"

fun col0 :: "imat3 \<Rightarrow> ivec3" where
  "col0 ((a, b, c), (d, e, f), (g, h, i)) = (a, d, g)"

fun col1 :: "imat3 \<Rightarrow> ivec3" where
  "col1 ((a, b, c), (d, e, f), (g, h, i)) = (b, e, h)"

fun col2 :: "imat3 \<Rightarrow> ivec3" where
  "col2 ((a, b, c), (d, e, f), (g, h, i)) = (c, f, i)"

fun col_det :: "ivec3 \<Rightarrow> ivec3 \<Rightarrow> ivec3 \<Rightarrow> int" where
  "col_det (a, d, g) (b, e, h) (c, f, i) = determinant ((a, b, c), (d, e, f), (g, h, i))"

text \<open>Two offsets are equivalent when they differ by a translation of the supercell
  lattice.\<close>

definition lat_equiv :: "imat3 \<Rightarrow> ivec3 \<Rightarrow> ivec3 \<Rightarrow> bool" where
  "lat_equiv m x y \<longleftrightarrow> in_span (col0 m) (col1 m) (col2 m) (isub x y)"

fun in_box :: "ivec3 \<Rightarrow> ivec3 \<Rightarrow> bool" where
  "in_box (f0, f1, f2) (x, y, z) \<longleftrightarrow> 0 \<le> x \<and> x < f0 \<and> 0 \<le> y \<and> y < f1 \<and> 0 \<le> z \<and> z < f2"

section \<open>Properties of trim_cell\<close>

lemma sqrt_less_iff_sq: "0 \<le> x \<Longrightarrow> sqrt x < s \<longleftrightarrow> 0 < s \<and> x < s\<^sup>2"
proof
  assume x: "0 \<le> x" and l: "sqrt x < s"
  have "0 \<le> sqrt x" using x by simp
  then have s: "0 < s" using l by linarith
  have "(sqrt x)\<^sup>2 < s\<^sup>2" using l \<open>0 \<le> sqrt x\<close> by (rule power_strict_mono[OF _ _ pos2])
  moreover have "(sqrt x)\<^sup>2 = x" using x by simp
  ultimately show "0 < s \<and> x < s\<^sup>2" using s by simp
next
  assume x: "0 \<le> x" and r: "0 < s \<and> x < s\<^sup>2"
  then show "sqrt x < s" by (simp add: real_less_lsqrt)
qed

lemma normsq_nonneg: "0 \<le> normsq v"
  by (cases v) (simp add: normsq_def)

lemma trim_distance_less_iff:
  "trim_distance lat k p < s \<longleftrightarrow>
     0 < s \<and> normsq (vec_mat (min_image k p) lat) < s\<^sup>2"
  by (simp add: trim_distance_def Let_def sqrt_less_iff_sq normsq_nonneg min_image_def)

lemma overlap_indices_code:
  "overlap_indices lat s kept pos =
     filter (\<lambda>k. 0 < s \<and> normsq (vec_mat (min_image (kept ! k) pos) lat) < s\<^sup>2) [0..<length kept]"
  unfolding overlap_indices_def trim_distance_less_iff ..

lemma trim_step_assert_iff:
  "trim_step lat s cl i pos st = Inl AssertionError \<longleftrightarrow>
     1 < length (overlap_indices lat s (trimed_positions st) pos)"
  by (cases "overlap_indices lat s (trimed_positions st) pos")
     (auto simp: trim_step_def Let_def py_index_def append_opt_def
           split: sum.splits option.splits if_splits)

lemma trim_loop_assert_iff:
  "trim_loop lat s cl i ps st = Inl AssertionError \<longleftrightarrow>
     (\<exists>k<length ps. \<exists>st'. trim_loop lat s cl i (take k ps) st = Inr st' \<and>
         1 < length (overlap_indices lat s (trimed_positions st') (ps ! k)))"
proof (induction ps arbitrary: i st)
  case Nil
  then show ?case by simp
next
  case (Cons pos ps)
  show ?case
  proof (cases "trim_step lat s cl i pos st")
    case (Inl e)
    show ?thesis
    proof (cases "e = AssertionError")
      case True
      then have "1 < length (overlap_indices lat s (trimed_positions st) pos)"
        using Inl trim_step_assert_iff by blast
      then have "\<exists>k<length (pos # ps). \<exists>st'. trim_loop lat s cl i (take k (pos # ps)) st = Inr st' \<and>
         1 < length (overlap_indices lat s (trimed_positions st') ((pos # ps) ! k))"
        by (intro exI[of _ 0]) simp
      then show ?thesis using Inl True by simp
    next
      case False
      have no: "\<not> 1 < length (overlap_indices lat s (trimed_positions st) pos)"
        using Inl False trim_step_assert_iff by (metis sum.inject(1))
      have "\<not> (\<exists>k<length (pos # ps). \<exists>st'. trim_loop lat s cl i (take k (pos # ps)) st = Inr st' \<and>
         1 < length (overlap_indices lat s (trimed_positions st') ((pos # ps) ! k)))"
      proof
        assume "\<exists>k<length (pos # ps). \<exists>st'. trim_loop lat s cl i (take k (pos # ps)) st = Inr st' \<and>
         1 < length (overlap_indices lat s (trimed_positions st') ((pos # ps) ! k))"
        then obtain k st' where k: "k < length (pos # ps)"
          and r: "trim_loop lat s cl i (take k (pos # ps)) st = Inr st'"
          and o: "1 < length (overlap_indices lat s (trimed_positions st') ((pos # ps) ! k))"
          by blast
        show False
        proof (cases k)
          case 0
          then show ?thesis using r o no by simp
        next
          case (Suc k')
          then show ?thesis using r Inl by simp
        qed
      qed
      then show ?thesis using Inl False by simp
    qed
  next
    case (Inr st1)
    have no: "\<not> 1 < length (overlap_indices lat s (trimed_positions st) pos)"
      using Inr trim_step_assert_iff by (metis Inl_Inr_False)
    have "(\<exists>k<length (pos # ps). \<exists>st'. trim_loop lat s cl i (take k (pos # ps)) st = Inr st' \<and>
         1 < length (overlap_indices lat s (trimed_positions st') ((pos # ps) ! k)))
      \<longleftrightarrow> (\<exists>k<length ps. \<exists>st'. trim_loop lat s cl (Suc i) (take k ps) st1 = Inr st' \<and>
         1 < length (overlap_indices lat s (trimed_positions st') (ps ! k)))"
      (is "?L \<longleftrightarrow> ?R")
    proof
      assume ?L
      then obtain k st' where k: "k < length (pos # ps)"
          and r: "trim_loop lat s cl i (take k (pos # ps)) st = Inr st'"
          and o: "1 < length (overlap_indices lat s (trimed_positions st') ((pos # ps) ! k))"
        by blast
      show ?R
      proof (cases k)
        case 0
        then show ?thesis using r o no by simp
      next
        case (Suc k')
        then show ?thesis using k r o Inr by auto
      qed
    next
      assume ?R
      then obtain k st' where k: "k < length ps"
          and r: "trim_loop lat s cl (Suc i) (take k ps) st1 = Inr st'"
          and o: "1 < length (overlap_indices lat s (trimed_positions st') (ps ! k))"
        by blast
      show ?L
        by (rule exI[of _ "Suc k"]) (use k r o Inr in simp)
    qed
    then show ?thesis using Inr Cons.IH[of "Suc i" st1] by simp
  qed
qed

lemma trim_inv_init: "trim_inv cl (length (scaled_positions cl)) 0 (trim_init cl)"
  by (auto simp: trim_inv_def trim_init_def split: option.splits)

lemma overlap_indices_bound:
  "k \<in> set (overlap_indices lat s kept pos) \<Longrightarrow> k < length kept"
  by (simp add: overlap_indices_def)

lemma append_opt_inv:
  assumes "append_opt src acc i = Inr r"
    and "acc = map_option (\<lambda>ms. map (\<lambda>e. ms ! e) ex) src"
  shows "r = map_option (\<lambda>ms. map (\<lambda>e. ms ! e) (ex @ [i])) src"
  using assms by (auto simp: append_opt_def py_index_def split: option.splits if_splits)

lemma trim_step_inv:
  assumes inv: "trim_inv cl n i st" and i: "i < n"
    and step: "trim_step lat s cl i pos st = Inr st'"
  shows "trim_inv cl n (Suc i) st'"
proof -
  from inv have len: "length (mapping_table st) = n"
    and srt: "sorted_wrt (<) (extracted_atoms st)"
    and lt: "\<forall>e \<in> set (extracted_atoms st). e < i"
    and old: "\<forall>k<n. k < i \<longrightarrow> mapping_table st ! k \<in> set (extracted_atoms st) \<and>
        mapping_table st ! k \<le> k \<and>
        (mapping_table st ! k = k \<longleftrightarrow> k \<in> set (extracted_atoms st))"
    and rest: "\<forall>k<n. i \<le> k \<longrightarrow> mapping_table st ! k = k"
    and lenp: "length (trimed_positions st) = length (extracted_atoms st)"
    and nums: "trimed_numbers st = map (\<lambda>e. numbers cl ! e) (extracted_atoms st)"
    and mss: "trimed_masses st = map_option (\<lambda>ms. map (\<lambda>e. ms ! e) (extracted_atoms st)) (masses cl)"
    and mgs: "trimed_magmoms st = map_option (\<lambda>ms. map (\<lambda>e. ms ! e) (extracted_atoms st)) (magmoms cl)"
    unfolding trim_inv_def by blast+
  have i_notin: "i \<notin> set (extracted_atoms st)" using lt by blast
  let ?ov = "overlap_indices lat s (trimed_positions st) pos"
  show ?thesis
  proof (cases "?ov = []")
    case True
    from step True obtain nn ms mg where
      nn: "py_index (numbers cl) i = Inr nn"
      and ms: "append_opt (masses cl) (trimed_masses st) i = Inr ms"
      and mg: "append_opt (magmoms cl) (trimed_magmoms st) i = Inr mg"
      and st': "st' = st\<lparr>trimed_positions := trimed_positions st @ [pos],
                               trimed_numbers := trimed_numbers st @ [nn],
                               trimed_masses := ms,
                               trimed_magmoms := mg,
                               extracted_atoms := extracted_atoms st @ [i]\<rparr>"
      by (auto simp: trim_step_def Let_def split: sum.splits)
    have nn': "nn = numbers cl ! i" using nn by (auto simp: py_index_def split: if_splits)
    have ms': "ms = map_option (\<lambda>ms. map (\<lambda>e. ms ! e) (extracted_atoms st @ [i])) (masses cl)"
      using append_opt_inv[OF ms mss] .
    have mg': "mg = map_option (\<lambda>ms. map (\<lambda>e. ms ! e) (extracted_atoms st @ [i])) (magmoms cl)"
      using append_opt_inv[OF mg mgs] .
    have mt_i: "mapping_table st ! i = i" using rest i by simp
    have 1: "sorted_wrt (<) (extracted_atoms st @ [i])"
      using srt lt by (simp add: sorted_wrt_append)
    have 2: "\<forall>e \<in> set (extracted_atoms st @ [i]). e < Suc i"
      using lt by (auto simp: less_Suc_eq)
    have 3: "\<forall>k<n. k < Suc i \<longrightarrow> mapping_table st ! k \<in> set (extracted_atoms st @ [i]) \<and>
        mapping_table st ! k \<le> k \<and>
        (mapping_table st ! k = k \<longleftrightarrow> k \<in> set (extracted_atoms st @ [i]))"
    proof (intro allI impI)
      fix k assume k: "k < n" "k < Suc i"
      show "mapping_table st ! k \<in> set (extracted_atoms st @ [i]) \<and>
        mapping_table st ! k \<le> k \<and>
        (mapping_table st ! k = k \<longleftrightarrow> k \<in> set (extracted_atoms st @ [i]))"
      proof (cases "k = i")
        case True
        then show ?thesis using mt_i by simp
      next
        case False
        then have "k < i" using k by simp
        then show ?thesis using old k False by simp
      qed
    qed
    have 4: "\<forall>k<n. Suc i \<le> k \<longrightarrow> mapping_table st ! k = k"
      using rest by simp
    show ?thesis
      unfolding trim_inv_def st' using len 1 2 3 4 lenp nums nn' ms' mg' by simp
  next
    case False
    from step False have st': "st' = st\<lparr>mapping_table := (mapping_table st)[i := extracted_atoms st ! hd ?ov]\<rparr>"
      by (auto simp: trim_step_def Let_def split: if_splits)
    have "hd ?ov \<in> set ?ov" using False by simp
    then have "hd ?ov < length (trimed_positions st)" by (rule overlap_indices_bound)
    then have hd: "hd ?ov < length (extracted_atoms st)" using lenp by simp
    let ?e = "extracted_atoms st ! hd ?ov"
    have e_in: "?e \<in> set (extracted_atoms st)" using hd by simp
    then have e_lt: "?e < i" using lt by simp
    have 3: "\<forall>k<n. k < Suc i \<longrightarrow> (mapping_table st)[i := ?e] ! k \<in> set (extracted_atoms st) \<and>
        (mapping_table st)[i := ?e] ! k \<le> k \<and>
        ((mapping_table st)[i := ?e] ! k = k \<longleftrightarrow> k \<in> set (extracted_atoms st))"
    proof (intro allI impI)
      fix k assume k: "k < n" "k < Suc i"
      show "(mapping_table st)[i := ?e] ! k \<in> set (extracted_atoms st) \<and>
        (mapping_table st)[i := ?e] ! k \<le> k \<and>
        ((mapping_table st)[i := ?e] ! k = k \<longleftrightarrow> k \<in> set (extracted_atoms st))"
      proof (cases "k = i")
        case True
        then show ?thesis using e_in e_lt i_notin len i by simp
      next
        case False
        then have "k < i" using k by simp
        then show ?thesis using old k False by simp
      qed
    qed
    have 4: "\<forall>k<n. Suc i \<le> k \<longrightarrow> (mapping_table st)[i := ?e] ! k = k"
      using rest by simp
    have 2: "\<forall>e \<in> set (extracted_atoms st). e < Suc i"
      using lt by (auto simp: less_Suc_eq)
    show ?thesis
      unfolding trim_inv_def st' using len srt 2 3 4 lenp nums mss mgs by simp
  qed
qed

lemma trim_loop_inv:
  "trim_inv cl n i st \<Longrightarrow> i + length ps = n \<Longrightarrow>
   trim_loop lat s cl i ps st = Inr st' \<Longrightarrow> trim_inv cl n n st'"
proof (induction ps arbitrary: i st)
  case Nil
  then show ?case by simp
next
  case (Cons pos ps)
  from Cons.prems(3) obtain st1 where
    s1: "trim_step lat s cl i pos st = Inr st1"
    and r: "trim_loop lat s cl (Suc i) ps st1 = Inr st'"
    by (auto split: sum.splits)
  have "trim_inv cl n (Suc i) st1"
    using trim_step_inv[OF Cons.prems(1) _ s1] Cons.prems(2) by simp
  then show ?case using Cons.IH[OF _ _ r] Cons.prems(2) by simp
qed

lemma trim_cell_inv:
  assumes "trim_cell relative_axes cl symprec = Inr (tc, ex, mt)"
  shows "\<exists>st. trim_inv cl (length (scaled_positions cl)) (length (scaled_positions cl)) st \<and>
     ex = extracted_atoms st \<and> mt = mapping_table st \<and>
     numbers tc = trimed_numbers st \<and> masses tc = trimed_masses st \<and>
     magmoms tc = trimed_magmoms st \<and> scaled_positions tc = trimed_positions st"
proof -
  from assms obtain inv_axes st where
    "trim_loop (mat_mul (transpose3 relative_axes) (cell cl)) symprec cl 0
        (positions_in_new_lattice inv_axes (scaled_positions cl)) (trim_init cl) = Inr st"
    and r: "tc = \<lparr>numbers = trimed_numbers st, masses = trimed_masses st,
                     magmoms = trimed_magmoms st, scaled_positions = trimed_positions st,
                     cell = mat_mul (transpose3 relative_axes) (cell cl), pbc = True\<rparr>"
      "ex = extracted_atoms st" "mt = mapping_table st"
    by (auto simp: trim_cell_def Let_def split: sum.splits)
  then have "trim_inv cl (length (scaled_positions cl)) (length (scaled_positions cl)) st"
    by (intro trim_loop_inv[OF trim_inv_init]) (simp_all add: positions_in_new_lattice_def)
  then show ?thesis using r by auto
qed

text \<open>
  C10. Whenever \<^verbatim>\<open>trim_cell\<close> returns, the kept source indices are strictly increasing, the
  mapping table has one entry per input atom, every entry is a kept index not above its own
  position and equals its position exactly for the kept atoms, and the trimmed cell has one
  atom per kept index, with species, masses and magnetic moments read from the input at the
  kept indices in order.
\<close>

theorem trim_cell_result_invariants:
  assumes "trim_cell relative_axes cl symprec = Inr (tc, ex, mt)"
  shows "sorted_wrt (<) ex \<and>
     length mt = length (scaled_positions cl) \<and>
     (\<forall>i<length mt. mt ! i \<in> set ex \<and> mt ! i \<le> i \<and> (mt ! i = i \<longleftrightarrow> i \<in> set ex)) \<and>
     get_number_of_atoms tc = length ex \<and>
     numbers tc = map (\<lambda>e. numbers cl ! e) ex \<and>
     masses tc = map_option (\<lambda>ms. map (\<lambda>e. ms ! e) ex) (masses cl) \<and>
     magmoms tc = map_option (\<lambda>ms. map (\<lambda>e. ms ! e) ex) (magmoms cl)"
  using trim_cell_inv[OF assms] by (auto simp: trim_inv_def get_number_of_atoms_def)

text \<open>
  C7. With an invertible \<open>relative_axes\<close>, \<^verbatim>\<open>trim_cell\<close> raises the assertion error exactly
  when the loop reaches a folded position that lies within the tolerance of more than one of
  the atoms kept so far; a position matching at most one kept atom raises no such error.
\<close>

theorem trim_cell_ambiguity_error:
  assumes "linalg_inv relative_axes = Inr inv_axes"
  shows "trim_cell relative_axes cl symprec = Inl AssertionError \<longleftrightarrow>
    (let lat = mat_mul (transpose3 relative_axes) (cell cl);
         folded = positions_in_new_lattice inv_axes (scaled_positions cl)
     in \<exists>k<length folded. \<exists>st.
          trim_loop lat symprec cl 0 (take k folded) (trim_init cl) = Inr st \<and>
          1 < length (overlap_indices lat symprec (trimed_positions st) (folded ! k)))"
proof -
  let ?lat = "mat_mul (transpose3 relative_axes) (cell cl)"
  let ?f = "positions_in_new_lattice inv_axes (scaled_positions cl)"
  have "trim_cell relative_axes cl symprec = Inl AssertionError \<longleftrightarrow>
        trim_loop ?lat symprec cl 0 ?f (trim_init cl) = Inl AssertionError"
    using assms by (simp add: trim_cell_def Let_def split: sum.splits)
  then show ?thesis
    unfolding Let_def trim_loop_assert_iff[of ?lat symprec cl 0 ?f "trim_init cl"] .
qed

lemma vec_mat_ident3 [simp]: "vec_mat p ident3 = p"
  by (cases p) (simp add: ident3_def)

lemma mat_mul_ident3_left [simp]: "mat_mul ident3 m = m"
  by (cases m rule: prod_cases3) (auto simp: ident3_def split: prod.splits)

lemma transpose3_ident3 [simp]: "transpose3 ident3 = ident3"
  by (simp add: ident3_def)

lemma linalg_inv_ident3 [simp]: "linalg_inv ident3 = Inr ident3"
  by (simp add: linalg_inv_def ident3_def)

lemma fold_in_unit_cell: "in_unit_cell p \<Longrightarrow> vsub p (vfloor p) = p"
  by (cases p) (simp add: floor_eq_iff[THEN iffD2])

lemma positions_in_new_lattice_ident3:
  "\<forall>p \<in> set ps. in_unit_cell p \<Longrightarrow> positions_in_new_lattice ident3 ps = ps"
  by (simp add: positions_in_new_lattice_def fold_in_unit_cell map_idI)

lemma trim_step_keep:
  assumes wf: "wf_atoms cl" and i: "i < length (scaled_positions cl)"
    and far: "\<forall>j<i. \<not> trim_distance lat (scaled_positions cl ! j) (scaled_positions cl ! i) < s"
  shows "trim_step lat s cl i (scaled_positions cl ! i) (kept_state cl i) = Inr (kept_state cl (Suc i))"
proof -
  have ov: "overlap_indices lat s (take i (scaled_positions cl)) (scaled_positions cl ! i) = []"
    using far i by (auto simp: overlap_indices_def filter_empty_conv)
  have n: "py_index (numbers cl) i = Inr (numbers cl ! i)"
    using wf i by (simp add: py_index_def wf_atoms_def)
  have ms: "append_opt (masses cl) (map_option (take i) (masses cl)) i
             = Inr (map_option (take (Suc i)) (masses cl))"
    using wf i by (auto simp: append_opt_def py_index_def wf_atoms_def take_Suc_conv_app_nth
        split: option.splits)
  have mg: "append_opt (magmoms cl) (map_option (take i) (magmoms cl)) i
             = Inr (map_option (take (Suc i)) (magmoms cl))"
    using wf i by (auto simp: append_opt_def py_index_def wf_atoms_def take_Suc_conv_app_nth
        split: option.splits)
  have ln: "i < length (numbers cl)" using wf i by (simp add: wf_atoms_def)
  show ?thesis
    using ov n ms mg i ln
    by (simp add: trim_step_def kept_state_def Let_def take_Suc_conv_app_nth)
qed

lemma trim_loop_keep:
  assumes wf: "wf_atoms cl"
    and far: "\<forall>i<length (scaled_positions cl). \<forall>j<i.
                \<not> trim_distance lat (scaled_positions cl ! j) (scaled_positions cl ! i) < s"
  shows "n = length (scaled_positions cl) - i \<Longrightarrow> i \<le> length (scaled_positions cl) \<Longrightarrow>
     trim_loop lat s cl i (drop i (scaled_positions cl)) (kept_state cl i)
       = Inr (kept_state cl (length (scaled_positions cl)))"
proof (induction n arbitrary: i)
  case 0
  then show ?case by simp
next
  case (Suc n)
  then have i: "i < length (scaled_positions cl)" by simp
  have d: "drop i (scaled_positions cl) = scaled_positions cl ! i # drop (Suc i) (scaled_positions cl)"
    using i by (simp add: Cons_nth_drop_Suc)
  have st: "trim_step lat s cl i (scaled_positions cl ! i) (kept_state cl i) = Inr (kept_state cl (Suc i))"
    using trim_step_keep[OF wf i] far i by simp
  have "trim_loop lat s cl (Suc i) (drop (Suc i) (scaled_positions cl)) (kept_state cl (Suc i))
       = Inr (kept_state cl (length (scaled_positions cl)))"
    using Suc.IH[of "Suc i"] Suc.prems i by simp
  then show ?case using d st by simp
qed

text \<open>
  C9. For a cell whose arrays have one entry per atom, whose positions lie in \<open>[0, 1)\<close> and
  of which no atom lies within the tolerance of an earlier one, trimming with the identity
  axes returns the same lattice, positions, species, masses and magnetic moments in the same
  order, keeps every index and maps every atom to itself.
\<close>

theorem trim_cell_identity:
  assumes wf: "wf_atoms cl"
    and inside: "\<forall>p \<in> set (scaled_positions cl). in_unit_cell p"
    and far: "\<forall>i<length (scaled_positions cl). \<forall>j<i.
                \<not> trim_distance (cell cl) (scaled_positions cl ! j) (scaled_positions cl ! i) < symprec"
  shows "trim_cell ident3 cl symprec =
           Inr (cl\<lparr>pbc := True\<rparr>, [0..<length (scaled_positions cl)], [0..<length (scaled_positions cl)])"
proof -
  have init: "trim_init cl = kept_state cl 0"
    by (simp add: trim_init_def kept_state_def split: option.splits)
  have loop: "trim_loop (cell cl) symprec cl 0 (scaled_positions cl) (trim_init cl)
       = Inr (kept_state cl (length (scaled_positions cl)))"
    using trim_loop_keep[OF wf far, of "length (scaled_positions cl)" 0] init by simp
  have full: "map_option (take (length (scaled_positions cl))) (masses cl) = masses cl"
     "map_option (take (length (scaled_positions cl))) (magmoms cl) = magmoms cl"
     "take (length (scaled_positions cl)) (numbers cl) = numbers cl"
    using wf by (auto simp: wf_atoms_def split: option.splits)
  show ?thesis
    using loop full
    by (simp add: trim_cell_def Let_def positions_in_new_lattice_ident3[OF inside] kept_state_def)
qed


lemma trim_eval_simps:
  "trim_cell ra cl s =
     (case linalg_inv ra of
        Inl e \<Rightarrow> Inl e
      | Inr inv_axes \<Rightarrow>
          (case trim_loop (mat_mul (transpose3 ra) (cell cl)) s cl 0
                  (positions_in_new_lattice inv_axes (scaled_positions cl)) (trim_init cl) of
             Inl e \<Rightarrow> Inl e
           | Inr st \<Rightarrow>
               Inr (\<lparr>numbers = trimed_numbers st, masses = trimed_masses st,
                     magmoms = trimed_magmoms st, scaled_positions = trimed_positions st,
                     cell = mat_mul (transpose3 ra) (cell cl), pbc = True\<rparr>,
                    extracted_atoms st, mapping_table st)))"
  by (simp add: trim_cell_def Let_def)

lemmas trim_eval =
  trim_eval_simps linalg_inv_def Let_def positions_in_new_lattice_def trim_init_def
  trim_step_def overlap_indices_code min_image_def py_index_def append_opt_def normsq_def
  power2_eq_square rint_def

lemma cellA_assertion: "trim_cell ident3 cellA (1 / 5) = Inl AssertionError"
  by (simp add: trim_eval cellA_def ident3_def upt_rec[of 0])

theorem trim_cell_ambiguity_error_witness:
  "linalg_inv ident3 = Inr ident3 \<and>
   trim_cell ident3 cellA (1 / 5) = Inl AssertionError \<and>
   (let lat = mat_mul (transpose3 ident3) (cell cellA);
        folded = positions_in_new_lattice ident3 (scaled_positions cellA)
    in \<exists>k<length folded. \<exists>st.
         trim_loop lat (1 / 5) cellA 0 (take k folded) (trim_init cellA) = Inr st \<and>
         1 < length (overlap_indices lat (1 / 5) (trimed_positions st) (folded ! k)))"
proof -
  have h: "linalg_inv ident3 = Inr ident3" by simp
  show ?thesis
    using h cellA_assertion trim_cell_ambiguity_error[OF h, of cellA "1 / 5"] by simp
qed

lemma cellB_trim:
  "trim_cell half_axes cellB (1 / 100000) =
     Inr (\<lparr>numbers = [14], masses = Some [28], magmoms = None,
           scaled_positions = [(0, 0, 0)], cell = half_axes, pbc = True\<rparr>, [0], [0, 0])"
  by (simp add: trim_eval cellB_def half_axes_def ident3_def upt_rec[of 0])

theorem trim_cell_result_invariants_witness:
  "trim_cell half_axes cellB (1 / 100000) =
     Inr (\<lparr>numbers = [14], masses = Some [28], magmoms = None,
           scaled_positions = [(0, 0, 0)], cell = half_axes, pbc = True\<rparr>, [0], [0, 0]) \<and>
   sorted_wrt (<) [0::nat] \<and>
   length [0::nat, 0] = length (scaled_positions cellB) \<and>
   [0::nat, 0] ! 1 \<in> set [0] \<and> [0::nat, 0] ! 1 \<le> 1 \<and>
   [14] = map (\<lambda>e. numbers cellB ! e) [0]"
  using trim_cell_result_invariants[OF cellB_trim] cellB_trim by simp

theorem trim_cell_identity_witness:
  "wf_atoms cellB \<and>
   in_unit_cell (scaled_positions cellB ! 0) \<and> in_unit_cell (scaled_positions cellB ! 1) \<and>
   \<not> trim_distance (cell cellB) (scaled_positions cellB ! 0) (scaled_positions cellB ! 1)
       < 1 / 100000 \<and>
   trim_cell ident3 cellB (1 / 100000) = Inr (cellB\<lparr>pbc := True\<rparr>, [0..<2], [0..<2])"
proof -
  have wf: "wf_atoms cellB" by (simp add: wf_atoms_def cellB_def)
  have inside: "\<forall>p \<in> set (scaled_positions cellB). in_unit_cell p" by (simp add: cellB_def)
  have d: "\<not> trim_distance ident3 (0, 0, 0) (1 / 2, 0, 0) < 1 / 100000"
    by (subst trim_distance_less_iff)
       (simp add: min_image_def rint_def Let_def normsq_def ident3_def power2_eq_square)
  have far: "\<forall>i<length (scaled_positions cellB). \<forall>j<i.
       \<not> trim_distance (cell cellB) (scaled_positions cellB ! j) (scaled_positions cellB ! i)
           < 1 / 100000"
    using d by (auto simp: cellB_def less_Suc_eq)
  have "length (scaled_positions cellB) = 2" by (simp add: cellB_def)
  moreover have "\<not> trim_distance (cell cellB) (scaled_positions cellB ! 0)
       (scaled_positions cellB ! 1) < 1 / 100000"
    using d by (simp add: cellB_def)
  moreover have "in_unit_cell (scaled_positions cellB ! 0)" "in_unit_cell (scaled_positions cellB ! 1)"
    by (simp_all add: cellB_def)
  ultimately show ?thesis
    using wf trim_cell_identity[OF wf inside far] by simp
qed

section \<open>The supercell-to-primitive map\<close>

lemma find_Some_set: "find P xs = Some x \<Longrightarrow> x \<in> set xs \<and> P x"
  by (auto simp: find_Some_iff)

lemma s2p_entries_cases:
  "s2p_entries inv_F p2s pos s i =
     (if s2p_matched inv_F p2s pos s i then [the (find (s2p_match inv_F pos s i) p2s)] else [])"
  by (auto simp: s2p_entries_def s2p_matched_def list_ex_iff find_None_iff
      dest: find_Some_set split: option.splits)

lemma length_concat_entries:
  "length (concat (map (s2p_entries inv_F p2s pos s) xs))
     = length (filter (s2p_matched inv_F p2s pos s) xs)"
  by (induction xs) (simp_all add: s2p_entries_cases)

lemma concat_entries_all:
  "\<forall>i \<in> set xs. s2p_matched inv_F p2s pos s i \<Longrightarrow>
   concat (map (s2p_entries inv_F p2s pos s) xs)
     = map (\<lambda>i. the (find (s2p_match inv_F pos s i) p2s)) xs"
  by (induction xs) (simp_all add: s2p_entries_cases)

lemma matched_find:
  "s2p_matched inv_F p2s pos s i \<Longrightarrow>
   \<exists>j. find (s2p_match inv_F pos s i) p2s = Some j"
  by (cases "find (s2p_match inv_F pos s i) p2s")
     (auto simp: s2p_matched_def list_ex_iff find_None_iff)

text \<open>
  C8 (amended). The supercell-to-primitive mapping step raises no error for an unmatched
  atom: with an invertible primitive matrix it always returns a map, which has one entry for
  every supercell atom that matches some primitive atom and none for the others. When every
  supercell atom matches, the map has exactly one entry per supercell atom, and entry \<open>i\<close> is the
  first atom of the primitive-to-supercell map that matches atom \<open>i\<close>.
\<close>

theorem supercell_to_primitive_map_entries:
  assumes "linalg_inv pm = Inr inv_F"
  shows "\<exists>m. supercell_to_primitive_map pm p2s symprec pos = Inr m \<and>
     length m = length (filter (s2p_matched inv_F p2s pos symprec) [0..<length pos]) \<and>
     ((\<forall>i<length pos. s2p_matched inv_F p2s pos symprec i) \<longrightarrow>
        length m = length pos \<and>
        (\<forall>i<length pos. find (s2p_match inv_F pos symprec i) p2s = Some (m ! i)))"
proof -
  let ?m = "concat (map (s2p_entries inv_F p2s pos symprec) [0..<length pos])"
  have r: "supercell_to_primitive_map pm p2s symprec pos = Inr ?m"
    using assms by (simp add: supercell_to_primitive_map_def)
  have l: "length ?m = length (filter (s2p_matched inv_F p2s pos symprec) [0..<length pos])"
    by (rule length_concat_entries)
  have a: "(\<forall>i<length pos. s2p_matched inv_F p2s pos symprec i) \<longrightarrow>
        length ?m = length pos \<and>
        (\<forall>i<length pos. find (s2p_match inv_F pos symprec i) p2s = Some (?m ! i))"
  proof
    assume all: "\<forall>i<length pos. s2p_matched inv_F p2s pos symprec i"
    then have eq: "?m = map (\<lambda>i. the (find (s2p_match inv_F pos symprec i) p2s)) [0..<length pos]"
      by (intro concat_entries_all) simp
    have "\<forall>i<length pos. find (s2p_match inv_F pos symprec i) p2s = Some (?m ! i)"
    proof (intro allI impI)
      fix i assume i: "i < length pos"
      then obtain j where "find (s2p_match inv_F pos symprec i) p2s = Some j"
        using matched_find all by blast
      then show "find (s2p_match inv_F pos symprec i) p2s = Some (?m ! i)"
        using i by (simp add: eq)
    qed
    moreover have "length ?m = length pos" by (simp add: eq)
    ultimately show "length ?m = length pos \<and>
        (\<forall>i<length pos. find (s2p_match inv_F pos symprec i) p2s = Some (?m ! i))" by blast
  qed
  show ?thesis using r l a by blast
qed

lemmas s2p_eval =
  supercell_to_primitive_map_def s2p_entries_def s2p_match_def s2p_matched_def linalg_inv_def
  Let_def rint_def

lemma half_axes_inv: "linalg_inv half_axes = Inr ((2, 0, 0), (0, 1, 0), (0, 0, 1))"
  by (simp add: linalg_inv_def half_axes_def)

theorem supercell_to_primitive_map_entries_witness:
  "linalg_inv half_axes = Inr ((2, 0, 0), (0, 1, 0), (0, 0, 1)) \<and>
   s2p_matched ((2, 0, 0), (0, 1, 0), (0, 0, 1)) [0] (scaled_positions cellB) (1 / 100000) 0 \<and>
   s2p_matched ((2, 0, 0), (0, 1, 0), (0, 0, 1)) [0] (scaled_positions cellB) (1 / 100000) 1 \<and>
   supercell_to_primitive_map half_axes [0] (1 / 100000) (scaled_positions cellB) = Inr [0, 0] \<and>
   length [0::nat, 0] = length (scaled_positions cellB)"
proof -
  have m0: "s2p_matched ((2, 0, 0), (0, 1, 0), (0, 0, 1)) [0] (scaled_positions cellB) (1 / 100000) 0"
    by (simp add: s2p_eval cellB_def)
  have m1: "s2p_matched ((2, 0, 0), (0, 1, 0), (0, 0, 1)) [0] (scaled_positions cellB) (1 / 100000) 1"
    by (simp add: s2p_eval cellB_def)
  have all: "\<forall>i<length (scaled_positions cellB).
     s2p_matched ((2, 0, 0), (0, 1, 0), (0, 0, 1)) [0] (scaled_positions cellB) (1 / 100000) i"
    using m0 m1 by (auto simp: cellB_def less_Suc_eq)
  have r: "supercell_to_primitive_map half_axes [0] (1 / 100000) (scaled_positions cellB) = Inr [0, 0]"
    by (simp add: s2p_eval half_axes_def cellB_def upt_rec[of 0])
  from supercell_to_primitive_map_entries[OF half_axes_inv, of "[0]" "1 / 100000" "scaled_positions cellB"]
  have "length [0::nat, 0] = length (scaled_positions cellB)"
    using all r by auto
  then show ?thesis using half_axes_inv m0 m1 r by simp
qed

text \<open>
  C8 as stated fails: in \<open>cellC\<close> the second atom is merged into the first by \<^verbatim>\<open>trim_cell\<close>
  (Cartesian distance below the tolerance) but matches no primitive atom (fractional
  difference above it); the construction returns, with a map of one entry for two atoms.
\<close>

theorem unmatched_atom_counterexample:
  "(case get_primitive cellC ident3 (1 / 10) of
      Inl e \<Rightarrow> False
    | Inr p \<Rightarrow> p2s_map p = [0] \<and> s2p_map p = [0]) \<and>
   get_number_of_atoms cellC = 2 \<and>
   \<not> s2p_matched ident3 [0] (scaled_positions cellC) (1 / 10) 1"
proof -
  have t: "trim_cell ident3 cellC (1 / 10) =
     Inr (\<lparr>numbers = [6], masses = None, magmoms = None, scaled_positions = [(0, 0, 0)],
           cell = ((1 / 10, 0, 0), (0, 1 / 10, 0), (0, 0, 1 / 10)), pbc = True\<rparr>, [0], [0, 0])"
    by (simp add: trim_eval cellC_def ident3_def upt_rec[of 0])
  have s: "supercell_to_primitive_map ident3 [0] (1 / 10) (scaled_positions cellC) = Inr [0]"
    by (simp add: s2p_eval ident3_def cellC_def upt_rec[of 0])
  have n: "\<not> s2p_matched ident3 [0] (scaled_positions cellC) (1 / 10) 1"
    by (simp add: s2p_eval ident3_def cellC_def)
  show ?thesis using t s n by (simp add: get_primitive_def get_number_of_atoms_def cellC_def)
qed

section \<open>Failure reports of the Delaunay reduction\<close>

lemma loop_100: "delaunay_loop tol 100 i eb =
     (case reduce_bases eb tol of
        (True, eb') \<Rightarrow> (i, eb')
      | (False, eb') \<Rightarrow> delaunay_loop tol 99 (Suc i) eb')"
proof -
  have "(100::nat) = Suc 99" by simp
  then show ?thesis by (metis delaunay_loop.simps(2))
qed

lemma delaunay_loop_not_converged:
  "\<not> delaunay_converged tol n eb \<Longrightarrow> 0 < n \<Longrightarrow> fst (delaunay_loop tol n i eb) = i + n - 1"
proof (induction n arbitrary: i eb)
  case 0
  then show ?case by simp
next
  case (Suc n)
  obtain b eb' where r: "reduce_bases eb tol = (b, eb')" by (cases "reduce_bases eb tol")
  with Suc.prems have b: "\<not> b" and nc: "\<not> delaunay_converged tol n eb'"
    by (cases b; simp)+
  show ?case
  proof (cases n)
    case 0
    then show ?thesis using r b by simp
  next
    case (Suc m)
    then have "fst (delaunay_loop tol n (Suc i) eb') = Suc i + n - 1"
      using Suc.IH[OF nc] by simp
    then show ?thesis using r b by simp
  qed
qed

lemma shortest_failed:
  assumes "no_independent_triple (sort_key normsq (seven_candidates eb)) tol"
  shows "get_shortest_bases_from_extented_bases eb tol =
     ([''Delaunary reduction is failed.''],
      (sort_key normsq (seven_candidates eb) ! 0, sort_key normsq (seven_candidates eb) ! 1,
       sort_key normsq (seven_candidates eb) ! 2))"
proof -
  have "find (\<lambda>(i, j, k). tol < \<bar>det3 (sort_key normsq (seven_candidates eb) ! i,
           sort_key normsq (seven_candidates eb) ! j, sort_key normsq (seven_candidates eb) ! k)\<bar>)
          triples7 = None"
    using assms by (auto simp: no_independent_triple_def list_all_iff find_None_iff)
  then show ?thesis
    by (simp add: get_shortest_bases_from_extented_bases_def Let_def)
qed

text \<open>
  C6 (amended). \<^verbatim>\<open>get_Delaunay_reduction\<close> raises nothing. When the loop does not complete
  within its 100 iterations it prints the message "Delaunary reduction was failed." and goes
  on with the extended basis reached; when no three of the seven sorted candidates pass the
  test of independence it prints "Delaunary reduction is failed." and returns the first
  three sorted candidates as the basis.
\<close>

theorem get_Delaunay_reduction_reports_failure:
  "(\<not> delaunay_converged tolerance 100 (extend_bases lattice) \<longrightarrow>
      ''Delaunary reduction was failed.'' \<in> set (fst (get_Delaunay_reduction lattice tolerance))) \<and>
   (no_independent_triple (sorted_candidates lattice tolerance) tolerance \<longrightarrow>
      ''Delaunary reduction is failed.'' \<in> set (fst (get_Delaunay_reduction lattice tolerance)) \<and>
      snd (get_Delaunay_reduction lattice tolerance) =
        (sorted_candidates lattice tolerance ! 0, sorted_candidates lattice tolerance ! 1,
         sorted_candidates lattice tolerance ! 2))"
proof (intro conjI impI)
  assume "\<not> delaunay_converged tolerance 100 (extend_bases lattice)"
  then have "fst (delaunay_loop tolerance 100 0 (extend_bases lattice)) = 99"
    using delaunay_loop_not_converged[of tolerance 100 "extend_bases lattice" 0] by simp
  then obtain eb where "delaunay_loop tolerance 100 0 (extend_bases lattice) = (99, eb)"
    by (cases "delaunay_loop tolerance 100 0 (extend_bases lattice)") simp
  then show "''Delaunary reduction was failed.'' \<in> set (fst (get_Delaunay_reduction lattice tolerance))"
    by (cases "get_shortest_bases_from_extented_bases eb tolerance")
       (simp add: get_Delaunay_reduction_def)
next
  assume a: "no_independent_triple (sorted_candidates lattice tolerance) tolerance"
  obtain i eb where l: "delaunay_loop tolerance 100 0 (extend_bases lattice) = (i, eb)"
    by (cases "delaunay_loop tolerance 100 0 (extend_bases lattice)")
  have s: "sorted_candidates lattice tolerance = sort_key normsq (seven_candidates eb)"
    by (simp add: sorted_candidates_def l)
  have f: "get_shortest_bases_from_extented_bases eb tolerance =
     ([''Delaunary reduction is failed.''],
      (sort_key normsq (seven_candidates eb) ! 0, sort_key normsq (seven_candidates eb) ! 1,
       sort_key normsq (seven_candidates eb) ! 2))"
    using shortest_failed a s by simp
  show "''Delaunary reduction is failed.'' \<in> set (fst (get_Delaunay_reduction lattice tolerance))"
    by (simp add: get_Delaunay_reduction_def l f)
  show "snd (get_Delaunay_reduction lattice tolerance) =
        (sorted_candidates lattice tolerance ! 0, sorted_candidates lattice tolerance ! 1,
         sorted_candidates lattice tolerance ! 2)"
    by (simp add: get_Delaunay_reduction_def l f s)
qed

lemma triples7_eq: "triples7 = [(0,1,2),(0,1,3),(0,1,4),(0,1,5),(0,1,6),(0,2,3),(0,2,4),(0,2,5),(0,2,6),(0,3,4),(0,3,5),(0,3,6),(0,4,5),(0,4,6),(0,5,6),(1,2,3),(1,2,4),(1,2,5),(1,2,6),(1,3,4),(1,3,5),(1,3,6),(1,4,5),(1,4,6),(1,5,6),(2,3,4),(2,3,5),(2,3,6),(2,4,5),(2,4,6),(2,5,6),(3,4,5),(3,4,6),(3,5,6),(4,5,6)]"
  by (simp add: triples7_def upt_rec numeral_eq_Suc)

lemma upt4: "[0..<4] = [0, 1, 2, 3]"
  by (simp add: upt_rec numeral_eq_Suc)

lemma skew_S_step: "tol < x \<Longrightarrow> reduce_bases (skew_S x) tol = (False, skew_T x)"
  by (simp add: reduce_bases_def pairs4_def skew_S_def skew_T_def upt4)

lemma skew_T_step:
  "tol < x \<Longrightarrow> - 1 \<le> tol \<Longrightarrow> 0 \<le> x \<Longrightarrow> 0 \<le> tol \<Longrightarrow> reduce_bases (skew_T x) tol = (False, skew_S (x - 1))"
  by (simp add: reduce_bases_def pairs4_def skew_S_def skew_T_def upt4)

lemma skew_not_converged:
  "0 \<le> tol \<Longrightarrow> tol < x - real n \<Longrightarrow> \<not> delaunay_converged tol (2 * n) (skew_S x)"
proof (induction n arbitrary: x)
  case 0
  then show ?case by simp
next
  case (Suc n)
  have x: "tol < x" "0 \<le> x" using Suc.prems by simp_all
  have "\<not> delaunay_converged tol (2 * n) (skew_S (x - 1))"
    using Suc.IH[of "x - 1"] Suc.prems by simp
  then show ?case
    using skew_S_step[OF x(1)] skew_T_step[OF x(1) _ x(2) Suc.prems(1)] Suc.prems(1) by simp
qed

lemma latSkew_not_converged:
  "\<not> delaunay_converged (1 / 100000) 100 (extend_bases latSkew)"
proof -
  have "extend_bases latSkew = skew_S 200"
    by (simp add: extend_bases_def latSkew_def skew_S_def)
  moreover have "\<not> delaunay_converged (1 / 100000) (2 * 50) (skew_S 200)"
    by (rule skew_not_converged) simp_all
  ultimately show ?thesis by simp
qed

lemma zero3_reduce: "reduce_bases (extend_bases zero3) (1 / 100000) = (True, extend_bases zero3)"
  by (simp add: reduce_bases_def pairs4_def zero3_def extend_bases_def)

lemma zero3_cands:
  "sort_key normsq (seven_candidates (extend_bases zero3)) =
     [(0, 0, 0), (0, 0, 0), (0, 0, 0), (0, 0, 0), (0, 0, 0), (0, 0, 0), (0, 0, 0)]"
  by (simp add: seven_candidates_def zero3_def extend_bases_def normsq_def)

lemma zero3_sorted:
  "sorted_candidates zero3 (1 / 100000) =
     [(0, 0, 0), (0, 0, 0), (0, 0, 0), (0, 0, 0), (0, 0, 0), (0, 0, 0), (0, 0, 0)]"
  by (simp add: sorted_candidates_def loop_100 zero3_reduce zero3_cands)

lemma zero3_no_triple: "no_independent_triple (sorted_candidates zero3 (1 / 100000)) (1 / 100000)"
  by (simp add: zero3_sorted no_independent_triple_def triples7_eq)

theorem get_Delaunay_reduction_reports_failure_witness:
  "\<not> delaunay_converged (1 / 100000) 100 (extend_bases latSkew) \<and>
   ''Delaunary reduction was failed.'' \<in> set (fst (get_Delaunay_reduction latSkew (1 / 100000))) \<and>
   no_independent_triple (sorted_candidates zero3 (1 / 100000)) (1 / 100000) \<and>
   ''Delaunary reduction is failed.'' \<in> set (fst (get_Delaunay_reduction zero3 (1 / 100000)))"
  using get_Delaunay_reduction_reports_failure[of "1 / 100000" latSkew]
    get_Delaunay_reduction_reports_failure[of "1 / 100000" zero3]
    latSkew_not_converged zero3_no_triple by blast

text \<open>
  C6 as stated fails: for the degenerate lattice of three zero vectors the function returns
  a basis, together with the printed message, instead of signalling an error.
\<close>

theorem reduction_failure_returns_counterexample:
  "get_Delaunay_reduction zero3 (1 / 100000) = ([''Delaunary reduction is failed.''], zero3)"
proof -
  have n: "no_independent_triple (sort_key normsq (seven_candidates (extend_bases zero3)))
       (1 / 100000)"
    using zero3_no_triple by (simp add: zero3_sorted zero3_cands)
  have z: "((0, 0, 0), (0, 0, 0), (0, 0, 0)) = zero3" by (simp add: zero3_def)
  have "get_shortest_bases_from_extented_bases (extend_bases zero3) (1 / 100000) =
      ([''Delaunary reduction is failed.''], zero3)"
    unfolding shortest_failed[OF n] zero3_cands by (simp add: z)
  then show ?thesis
    by (simp add: get_Delaunay_reduction_def loop_100 zero3_reduce)
qed

section \<open>Smallest vectors\<close>

lemma real_list_min_Min: "xs \<noteq> [] \<Longrightarrow> real_list_min xs = Min (set xs)"
  by (cases xs) (simp_all add: real_list_min_def Min.set_eq_fold[symmetric])

lemma filter_zip_map:
  "map fst (filter (\<lambda>(c, l). P l) (zip cs (map g cs))) = filter (\<lambda>c. P (g c)) cs"
  by (induction cs) simp_all

lemma lattice_points_length: "length lattice_points = 27"
  by (simp add: lattice_points_def)

lemma candidates27_nonempty: "candidates27 f \<noteq> []"
  by (simp add: candidates27_def lattice_points_def)

lemma simple_eq_within:
  "get_equivalent_smallest_vectors_simple fv rb symprec =
     within_tolerance rb symprec (candidates27 fv)"
proof -
  have ne: "map (cart_length rb) (candidates27 fv) \<noteq> []"
    using candidates27_nonempty by simp
  show ?thesis
    unfolding get_equivalent_smallest_vectors_simple_def Let_def within_tolerance_def
      candidates27_def[symmetric] real_list_min_Min[OF ne]
    by (simp add: filter_zip_map)
qed

lemma within_tolerance_nonempty:
  assumes "0 < symprec" and "cands \<noteq> []"
  shows "within_tolerance rb symprec cands \<noteq> []"
proof -
  have "Min (cart_length rb ` set cands) \<in> cart_length rb ` set cands"
    using assms(2) by (intro Min_in) simp_all
  then obtain c where c: "c \<in> set cands" "cart_length rb c = Min (cart_length rb ` set cands)"
    by auto
  then have "c \<in> set (within_tolerance rb symprec cands)"
    using assms(1) by (simp add: within_tolerance_def)
  then show ?thesis by auto
qed

lemma within_tolerance_empty:
  assumes "symprec \<le> 0"
  shows "within_tolerance rb symprec cands = []"
proof -
  have "\<forall>c \<in> set cands. Min (cart_length rb ` set cands) \<le> cart_length rb c"
    by simp
  then have "\<forall>c \<in> set cands. \<not> cart_length rb c - Min (cart_length rb ` set cands) < symprec"
    using assms by fastforce
  then show ?thesis by (simp add: within_tolerance_def filter_empty_conv)
qed

text \<open>
  C4 (amended). The vectors returned for a fractional vector are exactly those of its 27
  candidates whose Cartesian length is within the tolerance of the shortest candidate's, in
  the order of the candidates, so every tie is kept and every returned length is within the
  tolerance of the minimum; for a positive tolerance at least one vector is returned. The
  computation for a pair of atoms, when it returns, gives these vectors for the difference
  of the two reduced positions, converted to the primitive basis.
\<close>

theorem smallest_vectors_within_tolerance:
  "get_equivalent_smallest_vectors_simple frac_vector reduced_bases symprec =
     within_tolerance reduced_bases symprec (candidates27 frac_vector) \<and>
   length (candidates27 frac_vector) = 27 \<and>
   (\<forall>v \<in> set (get_equivalent_smallest_vectors_simple frac_vector reduced_bases symprec).
      v \<in> set (candidates27 frac_vector) \<and>
      cart_length reduced_bases v
        - Min (cart_length reduced_bases ` set (candidates27 frac_vector)) < symprec) \<and>
   (0 < symprec \<longrightarrow>
      get_equivalent_smallest_vectors_simple frac_vector reduced_bases symprec \<noteq> []) \<and>
   (get_equivalent_smallest_vectors niggli_reduce delaunay_reduce a_s a_p scell
        primitive_lattice symprec = Inr vs \<longrightarrow>
      (let rb = get_reduced_bases niggli_reduce delaunay_reduce (cell scell) False (1 / 100000)
       in \<exists>s_pos p_pos.
            reduced_frac_pos (get_positions scell) (inv3 rb) a_s = Inr s_pos \<and>
            reduced_frac_pos (get_positions scell) (inv3 rb) a_p = Inr p_pos \<and>
            vs = map (\<lambda>d. vec_mat d (mat_mul rb (inv3 primitive_lattice)))
                   (within_tolerance rb symprec (candidates27 (vsub s_pos p_pos))) \<and>
            (0 < symprec \<longrightarrow> vs \<noteq> [])))"
proof (intro conjI impI)
  show "get_equivalent_smallest_vectors_simple frac_vector reduced_bases symprec =
     within_tolerance reduced_bases symprec (candidates27 frac_vector)"
    by (rule simple_eq_within)
  show "length (candidates27 frac_vector) = 27"
    by (simp add: candidates27_def lattice_points_length)
  show "\<forall>v \<in> set (get_equivalent_smallest_vectors_simple frac_vector reduced_bases symprec).
      v \<in> set (candidates27 frac_vector) \<and>
      cart_length reduced_bases v
        - Min (cart_length reduced_bases ` set (candidates27 frac_vector)) < symprec"
    by (simp add: simple_eq_within within_tolerance_def)
  show "get_equivalent_smallest_vectors_simple frac_vector reduced_bases symprec \<noteq> []"
    if "0 < symprec"
    using that by (simp add: simple_eq_within within_tolerance_nonempty candidates27_nonempty)
next
  assume r: "get_equivalent_smallest_vectors niggli_reduce delaunay_reduce a_s a_p scell
        primitive_lattice symprec = Inr vs"
  let ?rb = "get_reduced_bases niggli_reduce delaunay_reduce (cell scell) False (1 / 100000)"
  from r obtain p_pos s_pos where
    p: "reduced_frac_pos (get_positions scell) (inv3 ?rb) a_p = Inr p_pos"
    and s: "reduced_frac_pos (get_positions scell) (inv3 ?rb) a_s = Inr s_pos"
    and "vs = map (\<lambda>d. vec_mat d (mat_mul ?rb (inv3 primitive_lattice)))
            (get_equivalent_smallest_vectors_simple (vsub s_pos p_pos) ?rb symprec)"
    by (auto simp: get_equivalent_smallest_vectors_def Let_def linalg_inv_def
          split: sum.splits if_splits)
  then have vs: "vs = map (\<lambda>d. vec_mat d (mat_mul ?rb (inv3 primitive_lattice)))
            (within_tolerance ?rb symprec (candidates27 (vsub s_pos p_pos)))"
    by (simp add: simple_eq_within)
  moreover have "0 < symprec \<longrightarrow> vs \<noteq> []"
    using vs within_tolerance_nonempty[OF _ candidates27_nonempty] by simp
  ultimately show "let rb = ?rb
       in \<exists>s_pos p_pos.
            reduced_frac_pos (get_positions scell) (inv3 rb) a_s = Inr s_pos \<and>
            reduced_frac_pos (get_positions scell) (inv3 rb) a_p = Inr p_pos \<and>
            vs = map (\<lambda>d. vec_mat d (mat_mul rb (inv3 primitive_lattice)))
                   (within_tolerance rb symprec (candidates27 (vsub s_pos p_pos))) \<and>
            (0 < symprec \<longrightarrow> vs \<noteq> [])"
    unfolding Let_def using p s by blast
qed

text \<open>
  C4 as stated fails: the comparison with the tolerance is strict, so with the tolerance 0 no
  candidate is returned.
\<close>

theorem zero_tolerance_counterexample:
  "get_equivalent_smallest_vectors_simple (1 / 2, 0, 0) ident3 0 = []"
  by (simp add: simple_eq_within within_tolerance_empty)

lemma cellB_gesv:
  "get_equivalent_smallest_vectors keep_lattice keep_lattice 1 0 cellB ident3 (1 / 100000) =
     Inr (map (\<lambda>d. vec_mat d (mat_mul ident3 ident3))
            (get_equivalent_smallest_vectors_simple (1 / 2, 0, 0) ident3 (1 / 100000)))"
proof -
  have rb: "get_reduced_bases keep_lattice keep_lattice (cell cellB) False (1 / 100000) = ident3"
    by (simp add: get_reduced_bases_def keep_lattice_def cellB_def)
  have p0: "reduced_frac_pos (get_positions cellB) ident3 0 = Inr (0, 0, 0)"
    by (simp add: reduced_frac_pos_def get_positions_def cellB_def py_index_def rint_def Let_def)
  have p1: "reduced_frac_pos (get_positions cellB) ident3 (Suc 0) = Inr (1 / 2, 0, 0)"
    by (simp add: reduced_frac_pos_def get_positions_def cellB_def py_index_def rint_def Let_def)
  show ?thesis
    unfolding get_equivalent_smallest_vectors_def rb Let_def
    by (simp add: p0 p1)
qed

theorem smallest_vectors_within_tolerance_witness:
  "(0::real) < 1 / 100000 \<and>
   get_equivalent_smallest_vectors_simple (1 / 2, 0, 0) ident3 (1 / 100000) \<noteq> [] \<and>
   (\<exists>vs. get_equivalent_smallest_vectors keep_lattice keep_lattice 1 0 cellB ident3
            (1 / 100000) = Inr vs \<and> vs \<noteq> [])"
proof -
  have p: "(0::real) < 1 / 100000" by simp
  note t = smallest_vectors_within_tolerance[of "(1 / 2, 0, 0)" ident3 "1 / 100000"]
  have a: "get_equivalent_smallest_vectors_simple (1 / 2, 0, 0) ident3 (1 / 100000) \<noteq> []"
    using t p by blast
  then have "\<exists>vs. get_equivalent_smallest_vectors keep_lattice keep_lattice 1 0 cellB ident3
            (1 / 100000) = Inr vs \<and> vs \<noteq> []"
    using cellB_gesv by simp
  then show ?thesis using p a by blast
qed

section \<open>The reduced basis\<close>

lemma det3_mat_mul: "det3 (mat_mul a b) = det3 a * det3 b"
  by (cases a rule: prod_cases3; cases b rule: prod_cases3)
     (auto simp: algebra_simps split: prod.splits)

lemma list4: "length xs = 4 \<Longrightarrow> \<exists>a b c d. xs = [a, b, c, d]"
  by (auto simp: length_Suc_conv numeral_eq_Suc)

lemma det3_neg_first:
  "det3 (vneg a, b, c) = - det3 (a, b, c)"
  by (cases a; cases b; cases c) (simp add: algebra_simps)

lemma det3_add_second_first:
  "det3 (a, vadd b a, c) = det3 (a, b, c)"
  by (cases a; cases b; cases c) (simp add: algebra_simps)

lemma det3_add_third_first:
  "det3 (a, b, vadd c a) = det3 (a, b, c)"
  by (cases a; cases b; cases c) (simp add: algebra_simps)

lemma det3_add_first_second:
  "det3 (vadd a b, b, c) = det3 (a, b, c)"
  by (cases a; cases b; cases c) (simp add: algebra_simps)

lemma det3_add_third_second:
  "det3 (a, b, vadd c b) = det3 (a, b, c)"
  by (cases a; cases b; cases c) (simp add: algebra_simps)

lemma det3_add_first_third:
  "det3 (vadd a c, b, c) = det3 (a, b, c)"
  by (cases a; cases b; cases c) (simp add: algebra_simps)

lemma det3_add_second_third:
  "det3 (a, vadd b c, c) = det3 (a, b, c)"
  by (cases a; cases b; cases c) (simp add: algebra_simps)

lemma det3_neg_second:
  "det3 (a, vneg b, c) = - det3 (a, b, c)"
  by (cases a; cases b; cases c) (simp add: algebra_simps)

lemma det3_neg_third:
  "det3 (a, b, vneg c) = - det3 (a, b, c)"
  by (cases a; cases b; cases c) (simp add: algebra_simps)

lemma sum4_step:
  "vadd (vadd (vadd a b) c) d = (0, 0, 0) \<Longrightarrow>
   vadd (vadd (vadd (vneg a) b) (vadd c a)) (vadd d a) = (0, 0, 0) \<and>
   vadd (vadd (vadd (vneg a) (vadd b a)) c) (vadd d a) = (0, 0, 0) \<and>
   vadd (vadd (vadd (vneg a) (vadd b a)) (vadd c a)) d = (0, 0, 0) \<and>
   vadd (vadd (vadd (vadd a b) (vneg b)) c) (vadd d b) = (0, 0, 0) \<and>
   vadd (vadd (vadd (vadd a b) (vneg b)) (vadd c b)) d = (0, 0, 0) \<and>
   vadd (vadd (vadd (vadd a c) (vadd b c)) (vneg c)) d = (0, 0, 0)"
  by (cases a; cases b; cases c; cases d) simp

lemma reduce_bases_inv:
  assumes "ext_inv D eb" and "reduce_bases eb tol = (b, eb')"
  shows "ext_inv D eb'"
proof (cases "find (\<lambda>(i, j). tol < vdot (eb ! i) (eb ! j)) pairs4")
  case None
  then show ?thesis using assms by (simp add: reduce_bases_def)
next
  case (Some p)
  obtain i j where p: "p = (i, j)" by (cases p)
  have "length eb = 4" using assms(1) by (simp add: ext_inv_def)
  then obtain a0 a1 a2 a3 where eb: "eb = [a0, a1, a2, a3]"
    using list4 by blast
  have s: "vadd (vadd (vadd a0 a1) a2) a3 = (0, 0, 0)" and d: "\<bar>det3 (a0, a1, a2)\<bar> = D"
    using assms(1) by (simp_all add: ext_inv_def eb)
  have "(i, j) \<in> set pairs4" using Some p find_Some_set by fastforce
  then consider "i = 0 \<and> j = 1" | "i = 0 \<and> j = 2" | "i = 0 \<and> j = 3"
    | "i = 1 \<and> j = 2" | "i = 1 \<and> j = 3" | "i = 2 \<and> j = 3"
    by (auto simp: pairs4_def)
  then show ?thesis
  proof cases
    case 1
    then have "eb' = [vneg a0, a1, vadd a2 a0, vadd a3 a0]"
      using assms(2) Some p by (simp add: reduce_bases_def upt4 eb)
    then show ?thesis using sum4_step[OF s] d
      by (simp add: ext_inv_def det3_neg_first det3_add_third_first)
  next
    case 2
    then have "eb' = [vneg a0, vadd a1 a0, a2, vadd a3 a0]"
      using assms(2) Some p by (simp add: reduce_bases_def upt4 eb)
    then show ?thesis using sum4_step[OF s] d
      by (simp add: ext_inv_def det3_neg_first det3_add_second_first)
  next
    case 3
    then have "eb' = [vneg a0, vadd a1 a0, vadd a2 a0, a3]"
      using assms(2) Some p by (simp add: reduce_bases_def upt4 eb)
    then show ?thesis using sum4_step[OF s] d
      by (simp add: ext_inv_def det3_neg_first det3_add_second_first det3_add_third_first)
  next
    case 4
    then have "eb' = [vadd a0 a1, vneg a1, a2, vadd a3 a1]"
      using assms(2) Some p by (simp add: reduce_bases_def upt4 eb)
    then show ?thesis using sum4_step[OF s] d
      by (simp add: ext_inv_def det3_neg_second det3_add_first_second)
  next
    case 5
    then have "eb' = [vadd a0 a1, vneg a1, vadd a2 a1, a3]"
      using assms(2) Some p by (simp add: reduce_bases_def upt4 eb)
    then show ?thesis using sum4_step[OF s] d
      by (simp add: ext_inv_def det3_neg_second det3_add_first_second det3_add_third_second)
  next
    case 6
    then have "eb' = [vadd a0 a2, vadd a1 a2, vneg a2, a3]"
      using assms(2) Some p by (simp add: reduce_bases_def upt4 eb)
    then show ?thesis using sum4_step[OF s] d
      by (simp add: ext_inv_def det3_neg_third det3_add_first_third det3_add_second_third)
  qed
qed

lemma delaunay_loop_inv:
  "ext_inv D eb \<Longrightarrow> ext_inv D (snd (delaunay_loop tol n i eb))"
proof (induction n arbitrary: i eb)
  case 0
  then show ?case by simp
next
  case (Suc n)
  obtain b eb' where r: "reduce_bases eb tol = (b, eb')" by (cases "reduce_bases eb tol")
  have i': "ext_inv D eb'" using reduce_bases_inv[OF Suc.prems r] .
  show ?case
  proof (cases b)
    case True
    then show ?thesis using r i' by simp
  next
    case False
    then show ?thesis using r Suc.IH[OF i'] by simp
  qed
qed

lemma extend_bases_inv: "ext_inv \<bar>det3 lattice\<bar> (extend_bases lattice)"
  by (cases lattice rule: prod_cases3; cases "fst lattice"; cases "fst (snd lattice)";
      cases "snd (snd lattice)")
     (simp add: ext_inv_def extend_bases_def)

lemma reduce_bases_True:
  "reduce_bases eb tol = (True, eb') \<Longrightarrow> eb' = eb \<and> pairwise_reduced eb tol"
  by (auto simp: reduce_bases_def pairwise_reduced_def list_all_iff find_None_iff not_less
      split: option.splits)

lemma delaunay_converged_reduced:
  "delaunay_converged tol n eb \<Longrightarrow> pairwise_reduced (snd (delaunay_loop tol n i eb)) tol"
proof (induction n arbitrary: i eb)
  case 0
  then show ?case by simp
next
  case (Suc n)
  obtain b eb' where r: "reduce_bases eb tol = (b, eb')" by (cases "reduce_bases eb tol")
  show ?case
  proof (cases b)
    case True
    then show ?thesis using r reduce_bases_True[of eb tol eb'] by simp
  next
    case False
    then show ?thesis using r Suc.prems Suc.IH[of eb'] by simp
  qed
qed

lemma triples7_mem: "(a, b, c) \<in> set triples7 \<longleftrightarrow> a < b \<and> b < c \<and> c < 7"
proof
  assume "(a, b, c) \<in> set triples7"
  then show "a < b \<and> b < c \<and> c < 7" by (auto simp: triples7_def)
next
  assume h: "a < b \<and> b < c \<and> c < 7"
  then have "a \<in> {0..<7}" "b \<in> {Suc a..<7}" "c \<in> {Suc b..<7}" by auto
  then have "\<exists>x\<in>{0..<7}. \<exists>y\<in>{Suc x..<7}. (a, b, c) \<in> (\<lambda>z. (x, y, z)) ` {Suc y..<7}"
    by blast
  then show "(a, b, c) \<in> set triples7" by (simp add: triples7_def)
qed

lemma triples7_sorted: "sorted_wrt lex3 triples7"
  by (simp add: triples7_eq)

lemma lex3_asym: "lex3 s t \<Longrightarrow> \<not> lex3 t s"
  by (cases s rule: prod_cases3; cases t rule: prod_cases3) auto

lemma lex3_irrefl: "\<not> lex3 t t"
  by (cases t rule: prod_cases3) auto

lemma find_triples7_first:
  assumes "find P triples7 = Some (i, j, k)"
  shows "i < j \<and> j < k \<and> k < 7 \<and> P (i, j, k) \<and>
     (\<forall>a b c. a < b \<and> b < c \<and> c < 7 \<and> lex3 (a, b, c) (i, j, k) \<longrightarrow> \<not> P (a, b, c))"
proof -
  from assms obtain n where n: "n < length triples7" "triples7 ! n = (i, j, k)" "P (i, j, k)"
    and before: "\<forall>m<n. \<not> P (triples7 ! m)"
    by (auto simp: find_Some_iff)
  have "(i, j, k) \<in> set triples7" using n by (metis nth_mem)
  then have ord: "i < j \<and> j < k \<and> k < 7" by (simp add: triples7_mem)
  have "\<not> P (a, b, c)" if abc: "a < b \<and> b < c \<and> c < 7" and l: "lex3 (a, b, c) (i, j, k)" for a b c
  proof -
    have "(a, b, c) \<in> set triples7" using abc by (simp add: triples7_mem)
    then obtain m where m: "m < length triples7" "triples7 ! m = (a, b, c)"
      by (auto simp: in_set_conv_nth)
    have "m < n"
    proof (rule ccontr)
      assume "\<not> m < n"
      then consider "m = n" | "n < m" by linarith
      then show False
      proof cases
        case 1
        then show ?thesis using m n l lex3_irrefl by simp
      next
        case 2
        then have "lex3 (triples7 ! n) (triples7 ! m)"
          using triples7_sorted m(1) by (simp add: sorted_wrt_iff_nth_less)
        then show ?thesis using m n l lex3_asym by metis
      qed
    qed
    then show ?thesis using before m by metis
  qed
  then show ?thesis using ord n by blast
qed

lemma coeffs_dets:
  "\<forall>c1 \<in> set coeffs7. \<forall>c2 \<in> set coeffs7. \<forall>c3 \<in> set coeffs7.
     det3 (c1, c2, c3) = 0 \<or> \<bar>det3 (c1, c2, c3)\<bar> = 1 \<or>
     (\<bar>det3 (c1, c2, c3)\<bar> = 2 \<and> is_sum c1 \<and> is_sum c2 \<and> is_sum c3)"
  by (simp add: coeffs7_def is_sum_def)

lemma coeffs_two_sums:
  "\<forall>c1 \<in> set coeffs7. \<forall>c2 \<in> set coeffs7. \<forall>c3 \<in> set coeffs7.
     is_sum c1 \<and> is_sum c2 \<and> c1 \<noteq> c2 \<and> \<not> is_sum c3 \<longrightarrow> det3 (c1, c2, c3) \<noteq> 0"
  by (simp add: coeffs7_def is_sum_def)

lemma det3_swap12: "det3 (b, a, c) = - det3 (a, b, c)"
  by (cases a; cases b; cases c) (simp add: algebra_simps)

lemma det3_swap23: "det3 (a, c, b) = - det3 (a, b, c)"
  by (cases a; cases b; cases c) (simp add: algebra_simps)

lemma four_sums:
  "is_sum a \<Longrightarrow> is_sum b \<Longrightarrow> is_sum c \<Longrightarrow> is_sum d \<Longrightarrow>
   a \<noteq> b \<Longrightarrow> a \<noteq> c \<Longrightarrow> b \<noteq> c \<Longrightarrow> d = a \<or> d = b \<or> d = c"
  unfolding is_sum_def by auto

lemma selection_core:
  assumes st: "set cs = set coeffs7" and di: "distinct cs" and len: "length cs = 7"
    and srt: "sorted (map h cs)"
    and first: "find (\<lambda>(i, j, k). det3 (cs ! i, cs ! j, cs ! k) \<noteq> 0) triples7 = Some (i, j, k)"
    and norms: "\<not> (h (1, 1, 0) \<le> h (1, 0, 0) \<and> h (0, 1, 1) \<le> h (0, 1, 0) \<and>
                   h (1, 0, 1) \<le> h (0, 0, 1))"
  shows "\<bar>det3 (cs ! i, cs ! j, cs ! k)\<bar> = 1"
proof (rule ccontr)
  assume not1: "\<bar>det3 (cs ! i, cs ! j, cs ! k)\<bar> \<noteq> 1"
  note f = find_triples7_first[OF first]
  have ord: "i < j" "j < k" "k < 7" using f by blast+
  have nz: "det3 (cs ! i, cs ! j, cs ! k) \<noteq> 0" using f by simp
  have f': "\<forall>a b c. a < b \<and> b < c \<and> c < 7 \<and> lex3 (a, b, c) (i, j, k) \<longrightarrow>
      \<not> (case (a, b, c) of (i, j, k) \<Rightarrow> det3 (cs ! i, cs ! j, cs ! k) \<noteq> 0)"
    using f by blast
  have prior: "det3 (cs ! a, cs ! b, cs ! c) = 0"
    if "a < b" "b < c" "c < 7" "lex3 (a, b, c) (i, j, k)" for a b c
    using f'[rule_format, of a b c] that by simp
  have mem: "cs ! n \<in> set coeffs7" if "n < 7" for n
    using that st len by (metis nth_mem)
  have inj: "cs ! m = cs ! n \<longleftrightarrow> m = n" if "m < 7" "n < 7" for m n
    using that di len by (simp add: nth_eq_iff_index_eq)
  have i7: "i < 7" and j7: "j < 7" using ord by simp_all
  have sums: "is_sum (cs ! i)" "is_sum (cs ! j)" "is_sum (cs ! k)"
    using coeffs_dets[rule_format, OF mem[OF i7] mem[OF j7] mem[OF ord(3)]] nz not1 by simp_all
  have ne: "cs ! i \<noteq> cs ! j" "cs ! i \<noteq> cs ! k" "cs ! j \<noteq> cs ! k"
    using inj[OF i7 j7] inj[OF i7 ord(3)] inj[OF j7 ord(3)] ord by simp_all
  have other: "\<not> is_sum (cs ! q)" if q: "q < 7" "q \<noteq> i" "q \<noteq> j" "q \<noteq> k" for q
  proof
    assume "is_sum (cs ! q)"
    then have "cs ! q = cs ! i \<or> cs ! q = cs ! j \<or> cs ! q = cs ! k"
      using four_sums[OF sums _ ne] by simp
    then show False
      using inj[OF q(1) i7] inj[OF q(1) j7] inj[OF q(1) ord(3)] q by simp
  qed
  have only: "q = i \<or> q = j" if q: "q < k" for q
  proof (rule ccontr)
    assume n: "\<not> (q = i \<or> q = j)"
    then have q7: "q < 7" and qn: "q \<noteq> i" "q \<noteq> j" "q \<noteq> k" using q ord by simp_all
    have d: "det3 (cs ! i, cs ! j, cs ! q) \<noteq> 0"
      using coeffs_two_sums[rule_format, OF mem[OF i7] mem[OF j7] mem[OF q7]]
        sums ne other[OF q7 qn] by simp
    consider "q < i" | "i < q" "q < j" | "j < q" using qn by linarith
    then show False
    proof cases
      case 1
      have "det3 (cs ! q, cs ! i, cs ! j) = det3 (cs ! i, cs ! j, cs ! q)"
        by (simp add: det3_swap12[of "cs ! q" "cs ! i"] det3_swap23[of "cs ! i" "cs ! q"])
      moreover have "det3 (cs ! q, cs ! i, cs ! j) = 0"
        using prior[of q i j] 1 ord by simp
      ultimately show ?thesis using d by simp
    next
      case 2
      have "det3 (cs ! i, cs ! q, cs ! j) = - det3 (cs ! i, cs ! j, cs ! q)"
        by (simp add: det3_swap23[of "cs ! i" "cs ! q"])
      moreover have "det3 (cs ! i, cs ! q, cs ! j) = 0"
        using prior[of i q j] 2 ord by simp
      ultimately show ?thesis using d by simp
    next
      case 3
      have "det3 (cs ! i, cs ! j, cs ! q) = 0"
        using prior[of i j q] 3 ord q q7 by simp
      then show ?thesis using d by simp
    qed
  qed
  have ijk: "i = 0" "j = 1" "k = 2"
  proof -
    have "k < 3"
    proof (rule ccontr)
      assume "\<not> k < 3"
      then have "0 < k" "1 < k" "2 < k" by simp_all
      then have "(0 = i \<or> 0 = j) \<and> (1 = i \<or> 1 = j) \<and> (2 = i \<or> 2 = j)"
        using only[of 0] only[of 1] only[of 2] by simp
      then show False by presburger
    qed
    then show "i = 0" "j = 1" "k = 2" using ord by presburger+
  qed
  have before: "h s \<le> h e"
    if s: "s \<in> set coeffs7" "is_sum s" and e: "e \<in> set coeffs7" "\<not> is_sum e" for s e
  proof -
    obtain p where p: "p < 7" "cs ! p = s" using s(1) st len by (metis in_set_conv_nth)
    obtain q where q: "q < 7" "cs ! q = e" using e(1) st len by (metis in_set_conv_nth)
    have "p < 3"
    proof (rule ccontr)
      assume "\<not> p < 3"
      then have "p \<noteq> i" "p \<noteq> j" "p \<noteq> k" using ijk by simp_all
      then show False using other[OF p(1)] p(2) s(2) by simp
    qed
    moreover have "\<not> q < 3"
    proof
      assume "q < 3"
      then have "q = i \<or> q = j \<or> q = k" using ijk by presburger
      then show False using sums q(2) e(2) by blast
    qed
    ultimately have "p \<le> q" by simp
    then have "map h cs ! p \<le> map h cs ! q"
      using srt q(1) len by (simp add: sorted_iff_nth_mono)
    then show ?thesis using p q len by simp
  qed
  have "h (1, 1, 0) \<le> h (1, 0, 0)"
    by (rule before) (simp_all add: coeffs7_def is_sum_def)
  moreover have "h (0, 1, 1) \<le> h (0, 1, 0)"
    by (rule before) (simp_all add: coeffs7_def is_sum_def)
  moreover have "h (1, 0, 1) \<le> h (0, 0, 1)"
    by (rule before) (simp_all add: coeffs7_def is_sum_def)
  ultimately have "h (1, 1, 0) \<le> h (1, 0, 0)" "h (0, 1, 1) \<le> h (0, 1, 0)" "h (1, 0, 1) \<le> h (0, 0, 1)"
    by simp_all
  then show False using norms by simp
qed

lemma selection_exists:
  assumes st: "set cs = set coeffs7" and di: "distinct cs" and len: "length cs = 7"
  shows "find (\<lambda>(i, j, k). det3 (cs ! i, cs ! j, cs ! k) \<noteq> 0) triples7 \<noteq> None"
proof
  assume none: "find (\<lambda>(i, j, k). det3 (cs ! i, cs ! j, cs ! k) \<noteq> 0) triples7 = None"
  have zero: "det3 (cs ! a, cs ! b, cs ! c) = 0" if "a < b" "b < c" "c < 7" for a b c
  proof -
    have "(a, b, c) \<in> set triples7" using that by (simp add: triples7_mem)
    then show ?thesis using none unfolding find_None_iff by blast
  qed
  have sym: "det3 (cs ! a, cs ! b, cs ! c) = 0"
    if lt: "a < 7" "b < 7" "c < 7" and ne: "a \<noteq> b" "b \<noteq> c" "a \<noteq> c" for a b c
  proof (cases "a < b")
    case ab: True
    show ?thesis
    proof (cases "b < c")
      case True
      then show ?thesis using zero[of a b c] ab lt by simp
    next
      case False
      then have cb: "c < b" using ne by simp
      show ?thesis
      proof (cases "a < c")
        case True
        then show ?thesis
          using zero[of a c b] cb lt by (simp add: det3_swap23[of "cs ! a" "cs ! b" "cs ! c"])
      next
        case False
        then have "c < a" using ne by simp
        then have "det3 (cs ! c, cs ! a, cs ! b) = 0" using zero[of c a b] ab lt by simp
        then show ?thesis
          by (simp add: det3_swap23[of "cs ! a" "cs ! b" "cs ! c"]
              det3_swap12[of "cs ! a" "cs ! c" "cs ! b"])
      qed
    qed
  next
    case False
    then have ba: "b < a" using ne by simp
    show ?thesis
    proof (cases "a < c")
      case True
      then have "det3 (cs ! b, cs ! a, cs ! c) = 0" using zero[of b a c] ba lt by simp
      then show ?thesis by (simp add: det3_swap12[of "cs ! a" "cs ! b" "cs ! c"])
    next
      case False
      then have ca: "c < a" using ne by simp
      show ?thesis
      proof (cases "b < c")
        case True
        then have "det3 (cs ! b, cs ! c, cs ! a) = 0" using zero[of b c a] ca lt by simp
        then show ?thesis
          by (simp add: det3_swap12[of "cs ! a" "cs ! b" "cs ! c"]
              det3_swap23[of "cs ! b" "cs ! a" "cs ! c"])
      next
        case False
        then have "c < b" using ne by simp
        then have "det3 (cs ! c, cs ! b, cs ! a) = 0" using zero[of c b a] ba lt by simp
        then show ?thesis
          by (simp add: det3_swap12[of "cs ! a" "cs ! b" "cs ! c"]
              det3_swap23[of "cs ! b" "cs ! a" "cs ! c"]
              det3_swap12[of "cs ! b" "cs ! c" "cs ! a"])
      qed
    qed
  qed
  have "(1, 0, 0) \<in> set cs" "(0, 1, 0) \<in> set cs" "(0, 0, 1) \<in> set cs"
    unfolding st by (simp_all add: coeffs7_def)
  then obtain p q r where p: "p < 7" "cs ! p = (1, 0, 0)" and q: "q < 7" "cs ! q = (0, 1, 0)"
    and r: "r < 7" "cs ! r = (0, 0, 1)"
    unfolding in_set_conv_nth len by blast
  have "p \<noteq> q" "q \<noteq> r" "p \<noteq> r" using p q r by auto
  then have "det3 (cs ! p, cs ! q, cs ! r) = 0" using sym[of p q r] p q r by simp
  then show False unfolding p q r by simp
qed

lemma insort_key_map:
  "insort_key f (g x) (map g xs) = map g (insort_key (\<lambda>c. f (g c)) x xs)"
  by (induction xs) simp_all

lemma sort_key_map: "sort_key f (map g xs) = map g (sort_key (\<lambda>c. f (g c)) xs)"
  by (induction xs) (simp_all add: insort_key_map)

lemma normsq_zero: "normsq v \<le> 0 \<Longrightarrow> v = (0, 0, 0)"
proof (cases v)
  case (fields x y z)
  assume "normsq v \<le> 0"
  then have "x * x + y * y + z * z \<le> 0" using fields by (simp add: normsq_def)
  moreover have "0 \<le> x * x" "0 \<le> y * y" "0 \<le> z * z" by simp_all
  ultimately have "x * x = 0" "y * y = 0" "z * z = 0" by linarith+
  then show ?thesis using fields by simp
qed

lemma norm_identity:
  "normsq (vadd a b) + normsq (vadd b c) + normsq (vadd c a)
     = normsq a + normsq b + normsq c + normsq (vadd (vadd a b) c)"
  by (cases a; cases b; cases c) (simp add: normsq_def algebra_simps)

lemma det3_sum_zero: "vadd (vadd a b) c = (0, 0, 0) \<Longrightarrow> det3 (a, b, c) = 0"
proof (cases a; cases b; cases c)
  fix a0 a1 a2 b0 b1 b2 c0 c1 c2
  assume a: "a = (a0, a1, a2)" and b: "b = (b0, b1, b2)" and c: "c = (c0, c1, c2)"
    and z: "vadd (vadd a b) c = (0, 0, 0)"
  then have e: "c0 = - a0 - b0" "c1 = - a1 - b1" "c2 = - a2 - b2" by simp_all
  show "det3 (a, b, c) = 0" unfolding a b c e by (simp add: algebra_simps)
qed

lemma sum4_last:
  assumes "vadd (vadd (vadd a b) c) d = (0, 0, 0)"
  shows "d = vneg (vadd (vadd a b) c)"
proof -
  obtain a0 a1 a2 where a: "a = (a0, a1, a2)" by (cases a)
  obtain b0 b1 b2 where b: "b = (b0, b1, b2)" by (cases b)
  obtain c0 c1 c2 where c: "c = (c0, c1, c2)" by (cases c)
  obtain d0 d1 d2 where d: "d = (d0, d1, d2)" by (cases d)
  from assms have "a0 + b0 + c0 + d0 = 0" "a1 + b1 + c1 + d1 = 0" "a2 + b2 + c2 + d2 = 0"
    unfolding a b c d by simp_all
  then have "d0 = - (a0 + b0 + c0)" "d1 = - (a1 + b1 + c1)" "d2 = - (a2 + b2 + c2)"
    by linarith+
  then show ?thesis unfolding a b c d by simp
qed

lemma vec_mat_units:
  "vec_mat (1, 0, 0) (a, b, c) = a"
  "vec_mat (0, 1, 0) (a, b, c) = b"
  "vec_mat (0, 0, 1) (a, b, c) = c"
  "vec_mat (- 1, - 1, - 1) (a, b, c) = vneg (vadd (vadd a b) c)"
  "vec_mat (1, 1, 0) (a, b, c) = vadd a b"
  "vec_mat (0, 1, 1) (a, b, c) = vadd b c"
  "vec_mat (1, 0, 1) (a, b, c) = vadd c a"
proof -
  obtain a0 a1 a2 where a: "a = (a0, a1, a2)" by (cases a)
  obtain b0 b1 b2 where b: "b = (b0, b1, b2)" by (cases b)
  obtain c0 c1 c2 where c: "c = (c0, c1, c2)" by (cases c)
  show "vec_mat (1, 0, 0) (a, b, c) = a" unfolding a b c by simp
  show "vec_mat (0, 1, 0) (a, b, c) = b" unfolding a b c by simp
  show "vec_mat (0, 0, 1) (a, b, c) = c" unfolding a b c by simp
  show "vec_mat (- 1, - 1, - 1) (a, b, c) = vneg (vadd (vadd a b) c)" unfolding a b c by simp
  show "vec_mat (1, 1, 0) (a, b, c) = vadd a b" unfolding a b c by simp
  show "vec_mat (0, 1, 1) (a, b, c) = vadd b c" unfolding a b c by simp
  show "vec_mat (1, 0, 1) (a, b, c) = vadd c a" unfolding a b c by simp
qed

lemma shortest_det:
  assumes inv: "ext_inv D eb" and tol: "0 \<le> tol" "tol < D"
  shows "\<exists>r. get_shortest_bases_from_extented_bases eb tol = ([], r) \<and> \<bar>det3 r\<bar> = D \<and>
           row0 r \<in> set (seven_candidates eb) \<and> row1 r \<in> set (seven_candidates eb) \<and>
           row2 r \<in> set (seven_candidates eb)"
proof -
  have "length eb = 4" using inv by (simp add: ext_inv_def)
  then obtain b0 b1 b2 b3 where eb: "eb = [b0, b1, b2, b3]" using list4 by blast
  have s: "vadd (vadd (vadd b0 b1) b2) b3 = (0, 0, 0)" and d: "\<bar>det3 (b0, b1, b2)\<bar> = D"
    using inv by (simp_all add: ext_inv_def eb)
  define g where "g = (\<lambda>c. vec_mat c (b0, b1, b2))"
  have b3: "b3 = vneg (vadd (vadd b0 b1) b2)"
    using s by (rule sum4_last)
  have g1: "g (1, 0, 0) = b0" "g (0, 1, 0) = b1" "g (0, 0, 1) = b2"
    "g (- 1, - 1, - 1) = b3" "g (1, 1, 0) = vadd b0 b1" "g (0, 1, 1) = vadd b1 b2"
    "g (1, 0, 1) = vadd b2 b0"
    unfolding g_def b3 by (simp_all only: vec_mat_units)
  have cands: "seven_candidates eb = map g coeffs7"
    by (simp add: seven_candidates_def coeffs7_def eb g1)
  define cs where "cs = sort_key (\<lambda>c. normsq (g c)) coeffs7"
  have basis: "sort_key normsq (seven_candidates eb) = map g cs"
    by (simp add: cands sort_key_map cs_def)
  have st: "set cs = set coeffs7" by (simp add: cs_def)
  have "distinct coeffs7" by (simp add: coeffs7_def)
  then have di: "distinct cs" by (simp add: cs_def)
  have "length coeffs7 = 7" by (simp add: coeffs7_def)
  then have len: "length cs = 7" by (simp add: cs_def)
  have srt: "sorted (map (\<lambda>c. normsq (g c)) cs)" by (simp add: cs_def)
  have detg: "det3 (g x, g y, g z) = det3 (x, y, z) * det3 (b0, b1, b2)" for x y z
    using det3_mat_mul[of "(x, y, z)" "(b0, b1, b2)"] by (simp add: g_def)
  have Dpos: "0 < D" using tol by simp
  have mem: "cs ! n \<in> set coeffs7" if "n < 7" for n
    using that st len by (metis nth_mem)
  have P_eq: "(tol < \<bar>det3 (map g cs ! i, map g cs ! j, map g cs ! k)\<bar>)
                = (det3 (cs ! i, cs ! j, cs ! k) \<noteq> 0)"
    if "i < 7" "j < 7" "k < 7" for i j k
  proof -
    have e: "\<bar>det3 (map g cs ! i, map g cs ! j, map g cs ! k)\<bar>
             = \<bar>det3 (cs ! i, cs ! j, cs ! k)\<bar> * D"
      using that len by (simp add: detg abs_mult d)
    from coeffs_dets[rule_format, OF mem[OF that(1)] mem[OF that(2)] mem[OF that(3)]]
    consider "det3 (cs ! i, cs ! j, cs ! k) = 0" | "\<bar>det3 (cs ! i, cs ! j, cs ! k)\<bar> = 1"
      | "\<bar>det3 (cs ! i, cs ! j, cs ! k)\<bar> = 2" by blast
    then show ?thesis
    proof cases
      case 1
      then show ?thesis using e tol by simp
    next
      case 2
      then show ?thesis using e tol by auto
    next
      case 3
      then show ?thesis using e tol Dpos by auto
    qed
  qed
  have fe: "find (\<lambda>(i, j, k). tol < \<bar>det3 (map g cs ! i, map g cs ! j, map g cs ! k)\<bar>) triples7
          = find (\<lambda>(i, j, k). det3 (cs ! i, cs ! j, cs ! k) \<noteq> 0) triples7"
  proof (rule find_cong[OF refl])
    fix t assume t: "t \<in> set triples7"
    obtain i j k where ijk: "t = (i, j, k)" by (cases t rule: prod_cases3)
    then have "i < 7" "j < 7" "k < 7" using t triples7_mem[of i j k] by simp_all
    then show "(case t of (i, j, k) \<Rightarrow> tol < \<bar>det3 (map g cs ! i, map g cs ! j, map g cs ! k)\<bar>)
        = (case t of (i, j, k) \<Rightarrow> det3 (cs ! i, cs ! j, cs ! k) \<noteq> 0)"
      using P_eq ijk by simp
  qed
  obtain t where t: "find (\<lambda>(i, j, k). det3 (cs ! i, cs ! j, cs ! k) \<noteq> 0) triples7 = Some t"
    using selection_exists[OF st di len] by blast
  obtain i j k where "t = (i, j, k)" by (cases t rule: prod_cases3)
  then have first:
    "find (\<lambda>(i, j, k). det3 (cs ! i, cs ! j, cs ! k) \<noteq> 0) triples7 = Some (i, j, k)"
    using t by simp
  have norms: "\<not> (normsq (g (1, 1, 0)) \<le> normsq (g (1, 0, 0)) \<and>
                   normsq (g (0, 1, 1)) \<le> normsq (g (0, 1, 0)) \<and>
                   normsq (g (1, 0, 1)) \<le> normsq (g (0, 0, 1)))"
  proof
    assume "normsq (g (1, 1, 0)) \<le> normsq (g (1, 0, 0)) \<and>
            normsq (g (0, 1, 1)) \<le> normsq (g (0, 1, 0)) \<and>
            normsq (g (1, 0, 1)) \<le> normsq (g (0, 0, 1))"
    then have "normsq (vadd b0 b1) + normsq (vadd b1 b2) + normsq (vadd b2 b0)
                \<le> normsq b0 + normsq b1 + normsq b2"
      by (simp add: g1)
    then have "normsq (vadd (vadd b0 b1) b2) \<le> 0"
      using norm_identity[of b0 b1 b2] by simp
    then have "vadd (vadd b0 b1) b2 = (0, 0, 0)" by (rule normsq_zero)
    then have "det3 (b0, b1, b2) = 0" by (rule det3_sum_zero)
    then show False using d Dpos by simp
  qed
  have one: "\<bar>det3 (cs ! i, cs ! j, cs ! k)\<bar> = 1"
    using selection_core[OF st di len srt first norms] .
  have ord: "i < 7" "j < 7" "k < 7"
    using find_triples7_first[OF first] by simp_all
  let ?r = "(map g cs ! i, map g cs ! j, map g cs ! k)"
  have res: "get_shortest_bases_from_extented_bases eb tol = ([], ?r)"
    by (simp add: get_shortest_bases_from_extented_bases_def Let_def basis fe first)
  have dr: "\<bar>det3 ?r\<bar> = D"
    using ord len one by (simp add: detg abs_mult d)
  have "set (map g cs) = set (sort_key normsq (seven_candidates eb))"
    by (simp only: basis)
  then have sc: "set (map g cs) = set (seven_candidates eb)" by simp
  have "map g cs ! i \<in> set (map g cs)" "map g cs ! j \<in> set (map g cs)"
    "map g cs ! k \<in> set (map g cs)"
    using ord len by (simp_all only: nth_mem length_map)
  then have rows: "row0 ?r \<in> set (seven_candidates eb)" "row1 ?r \<in> set (seven_candidates eb)"
    "row2 ?r \<in> set (seven_candidates eb)"
    unfolding sc by simp_all
  show ?thesis using res dr rows by blast
qed

text \<open>
  C3 (amended). When the loop completes within its 100 iterations, the four extended vectors
  it reaches have all six pairwise products at most the tolerance. For a tolerance that is
  not negative and below the magnitude of the determinant of the input lattice, the
  returned basis consists of three of the seven candidates built from the extended vectors
  reached, the determinant of the returned basis has the magnitude of the determinant of
  the input, and no failure of the selection is reported. The pairwise products of the
  returned vectors themselves are not bounded by the tolerance.
\<close>

theorem delaunay_reduction_properties:
  "(delaunay_converged tolerance 100 (extend_bases lattice) \<longrightarrow>
      pairwise_reduced (snd (delaunay_loop tolerance 100 0 (extend_bases lattice))) tolerance) \<and>
   (0 \<le> tolerance \<and> tolerance < \<bar>det3 lattice\<bar> \<longrightarrow>
      \<bar>det3 (snd (get_Delaunay_reduction lattice tolerance))\<bar> = \<bar>det3 lattice\<bar> \<and>
      row0 (snd (get_Delaunay_reduction lattice tolerance))
        \<in> set (seven_candidates (snd (delaunay_loop tolerance 100 0 (extend_bases lattice)))) \<and>
      row1 (snd (get_Delaunay_reduction lattice tolerance))
        \<in> set (seven_candidates (snd (delaunay_loop tolerance 100 0 (extend_bases lattice)))) \<and>
      row2 (snd (get_Delaunay_reduction lattice tolerance))
        \<in> set (seven_candidates (snd (delaunay_loop tolerance 100 0 (extend_bases lattice)))) \<and>
      ''Delaunary reduction is failed.'' \<notin> set (fst (get_Delaunay_reduction lattice tolerance)))"
proof (intro conjI impI)
  assume "delaunay_converged tolerance 100 (extend_bases lattice)"
  then show "pairwise_reduced (snd (delaunay_loop tolerance 100 0 (extend_bases lattice))) tolerance"
    by (rule delaunay_converged_reduced)
next
  assume t: "0 \<le> tolerance \<and> tolerance < \<bar>det3 lattice\<bar>"
  obtain i eb where l: "delaunay_loop tolerance 100 0 (extend_bases lattice) = (i, eb)"
    by (cases "delaunay_loop tolerance 100 0 (extend_bases lattice)")
  have "ext_inv \<bar>det3 lattice\<bar> (snd (delaunay_loop tolerance 100 0 (extend_bases lattice)))"
    by (rule delaunay_loop_inv[OF extend_bases_inv])
  then have inv: "ext_inv \<bar>det3 lattice\<bar> eb" by (simp add: l)
  from shortest_det[OF inv] t obtain r where
    r: "get_shortest_bases_from_extented_bases eb tolerance = ([], r)"
    and d: "\<bar>det3 r\<bar> = \<bar>det3 lattice\<bar>"
    and rows: "row0 r \<in> set (seven_candidates eb)" "row1 r \<in> set (seven_candidates eb)"
      "row2 r \<in> set (seven_candidates eb)"
    by blast
  have g: "get_Delaunay_reduction lattice tolerance =
      ((if i = 99 then [''Delaunary reduction was failed.''] else []), r)"
    by (simp add: get_Delaunay_reduction_def l r)
  show "\<bar>det3 (snd (get_Delaunay_reduction lattice tolerance))\<bar> = \<bar>det3 lattice\<bar>"
    by (simp add: g d)
  show "row0 (snd (get_Delaunay_reduction lattice tolerance))
        \<in> set (seven_candidates (snd (delaunay_loop tolerance 100 0 (extend_bases lattice))))"
    by (simp add: g l rows)
  show "row1 (snd (get_Delaunay_reduction lattice tolerance))
        \<in> set (seven_candidates (snd (delaunay_loop tolerance 100 0 (extend_bases lattice))))"
    by (simp add: g l rows)
  show "row2 (snd (get_Delaunay_reduction lattice tolerance))
        \<in> set (seven_candidates (snd (delaunay_loop tolerance 100 0 (extend_bases lattice))))"
    by (simp add: g l rows)
  show "''Delaunary reduction is failed.'' \<notin> set (fst (get_Delaunay_reduction lattice tolerance))"
    by (simp add: g)
qed

lemma converged_100: "delaunay_converged tol 100 eb =
     (case reduce_bases eb tol of
        (True, eb') \<Rightarrow> True
      | (False, eb') \<Rightarrow> delaunay_converged tol 99 eb')"
proof -
  have "(100::nat) = Suc 99" by simp
  then show ?thesis by (metis delaunay_converged.simps(2))
qed

lemma latC3_reduce:
  "reduce_bases (extend_bases latC3) (1 / 100000) = (True, extend_bases latC3)"
  by (simp add: reduce_bases_def pairs4_def latC3_def extend_bases_def)

lemma latC3_sorted:
  "sort_key normsq (seven_candidates (extend_bases latC3)) =
     [(4, 0, 0), (0, 0, 4), (1, 4, 0), (- 3, 4, 0), (4, 0, 4), (- 1, - 4, - 4), (- 3, 4, 4)]"
  by (simp add: seven_candidates_def latC3_def extend_bases_def normsq_def)

lemma latC3_shortest:
  "get_shortest_bases_from_extented_bases (extend_bases latC3) (1 / 100000)
     = ([], ((4, 0, 0), (0, 0, 4), (1, 4, 0)))"
  by (simp add: get_shortest_bases_from_extented_bases_def latC3_sorted triples7_eq Let_def)

lemma latC3_reduction:
  "get_Delaunay_reduction latC3 (1 / 100000) = ([], ((4, 0, 0), (0, 0, 4), (1, 4, 0)))"
  by (simp add: get_Delaunay_reduction_def loop_100 latC3_reduce latC3_shortest)

theorem delaunay_reduction_properties_witness:
  "delaunay_converged (1 / 100000) 100 (extend_bases latC3) \<and>
   pairwise_reduced (extend_bases latC3) (1 / 100000) \<and>
   (0::real) \<le> 1 / 100000 \<and> 1 / 100000 < \<bar>det3 latC3\<bar> \<and>
   \<bar>det3 (snd (get_Delaunay_reduction latC3 (1 / 100000)))\<bar> = 64"
proof -
  have c: "delaunay_converged (1 / 100000) 100 (extend_bases latC3)"
    by (simp add: converged_100 latC3_reduce)
  have l: "snd (delaunay_loop (1 / 100000) 100 0 (extend_bases latC3)) = extend_bases latC3"
    by (simp add: loop_100 latC3_reduce)
  have d: "det3 latC3 = 64" by (simp add: latC3_def)
  have t: "(0::real) \<le> 1 / 100000 \<and> 1 / 100000 < \<bar>det3 latC3\<bar>" by (simp add: d)
  from delaunay_reduction_properties[of "1 / 100000" latC3] c t l d
  show ?thesis by simp
qed

text \<open>
  C3 as stated fails: for the lattice \<open>latC3\<close>, which needs no reduction step, the returned
  basis holds the first vector and the sum of the first two, whose product 4 exceeds the
  tolerance.
\<close>

theorem reduced_basis_products_counterexample:
  "det3 latC3 \<noteq> 0 \<and>
   snd (get_Delaunay_reduction latC3 (1 / 100000)) = ((4, 0, 0), (0, 0, 4), (1, 4, 0)) \<and>
   \<not> vdot (4, 0, 0) (1, 4, 0) \<le> 1 / 100000"
  by (simp add: latC3_reduction) (simp add: latC3_def)

end
